(* ===== verification/Prelude.thy ===== *)
theory Prelude
  imports Main "HOL-Library.AList" "HOL-Library.Word" "HOL-Library.Code_Target_Nat"
begin

text \<open>
  Shared vocabulary of the development: the faults a C++ operation can end with, the
  \<open>std::unordered_map\<close> members of the managers as association lists in iteration order,
  range-based \<open>for\<close> loops with their iterator-validity condition, and the generic
  lemmas and collections the component theories use.
\<close>

unbundle bit_operations_syntax

section \<open>Collections\<close>

named_theorems um_simps \<open>reading a hash map after an update\<close>
named_theorems wf_intros \<open>operations that keep the keys of a hash map distinct\<close>
named_theorems out_simps \<open>evaluating outcomes\<close>

section \<open>Faults and outcomes\<close>

text \<open>
  A C++ operation on a state returns normally, leaves by an exception (the members it had
  already assigned keep their new values, so the state is part of the outcome), or has
  undefined behaviour.
\<close>

datatype exn = Invalid_argument | Out_of_range

datatype ub =
    Iterator_invalidated | Division_by_zero | Indeterminate_read | Out_of_bounds | Float_conversion

datatype 's outcome = Normal 's | Throws exn 's | Undefined ub

fun out_bind :: "'s outcome \<Rightarrow> ('s \<Rightarrow> 's outcome) \<Rightarrow> 's outcome" where
  "out_bind (Normal s) f = f s"
| "out_bind (Throws e s) f = Throws e s"
| "out_bind (Undefined u) f = Undefined u"

text \<open>\<open>try { ... } catch (const std::exception &e) { log }\<close>.\<close>

fun try_catch :: "'s outcome \<Rightarrow> 's outcome" where
  "try_catch (Throws e s) = Normal s"
| "try_catch (Normal s) = Normal s"
| "try_catch (Undefined u) = Undefined u"

fun returns :: "'s outcome \<Rightarrow> bool" where
  "returns (Normal s) = True"
| "returns (Throws e s) = False"
| "returns (Undefined u) = False"

declare out_bind.simps [out_simps] try_catch.simps [out_simps] returns.simps [out_simps]

lemma out_bind_Normal_iff:
  "out_bind r f = Normal t \<longleftrightarrow> (\<exists>s. r = Normal s \<and> f s = Normal t)"
  by (cases r) auto

lemma out_bind_assoc: "out_bind (out_bind r f) g = out_bind r (\<lambda>s. out_bind (f s) g)"
  by (cases r) auto

lemma try_catch_not_Throws: "try_catch r \<noteq> Throws e s"
  by (cases r) auto

text \<open>A property of the state an outcome carries, whichever way the operation left.\<close>

fun out_all :: "('s \<Rightarrow> bool) \<Rightarrow> 's outcome \<Rightarrow> bool" where
  "out_all P (Normal s) = P s"
| "out_all P (Throws e s) = P s"
| "out_all P (Undefined u) = True"

lemma out_all_bind:
  "out_all P r \<Longrightarrow> (\<And>s. P s \<Longrightarrow> out_all P (f s)) \<Longrightarrow> out_all P (out_bind r f)"
  by (cases r) auto

lemma out_all_try_catch: "out_all P r \<Longrightarrow> out_all P (try_catch r)"
  by (cases r) auto

section \<open>Hash maps\<close>

text \<open>
  An \<open>unordered_map\<close> is the list of its elements in its current iteration order. The
  order of a new element is unspecified by the standard; \<open>um_assign\<close> puts it last, and
  the theorems either read the map through \<open>um_find\<close> or hold for every order.
\<close>

type_synonym ('k, 'v) umap = "('k \<times> 'v) list"

definition um_find :: "('k, 'v) umap \<Rightarrow> 'k \<Rightarrow> 'v option" where
  "um_find m k = map_of m k"

definition um_assign :: "'k \<Rightarrow> 'v \<Rightarrow> ('k, 'v) umap \<Rightarrow> ('k, 'v) umap" where
  "um_assign k v m = AList.update k v m"

definition um_erase :: "'k \<Rightarrow> ('k, 'v) umap \<Rightarrow> ('k, 'v) umap" where
  "um_erase k m = AList.delete k m"

definition um_keys :: "('k, 'v) umap \<Rightarrow> 'k list" where
  "um_keys m = map fst m"

definition um_wf :: "('k, 'v) umap \<Rightarrow> bool" where
  "um_wf m \<longleftrightarrow> distinct (um_keys m)"

text \<open>\<open>f(m[k])\<close>: \<open>operator[]\<close> value-initialises a missing element before it is changed.\<close>

definition um_at :: "'v \<Rightarrow> ('k, 'v) umap \<Rightarrow> 'k \<Rightarrow> 'v" where
  "um_at d m k = (case um_find m k of None \<Rightarrow> d | Some v \<Rightarrow> v)"

definition um_modify :: "'v \<Rightarrow> 'k \<Rightarrow> ('v \<Rightarrow> 'v) \<Rightarrow> ('k, 'v) umap \<Rightarrow> ('k, 'v) umap" where
  "um_modify d k f m = um_assign k (f (um_at d m k)) m"

lemma um_find_Nil [simp, um_simps]: "um_find [] k = None"
  by (simp add: um_find_def)

lemma um_keys_Nil [simp]: "um_keys [] = []"
  by (simp add: um_keys_def)

lemma um_find_Cons [um_simps]: "um_find ((a, v) # m) k = (if k = a then Some v else um_find m k)"
  by (simp add: um_find_def)

lemma um_find_assign [um_simps]:
  "um_find (um_assign k v m) k' = (if k' = k then Some v else um_find m k')"
  by (simp add: um_find_def um_assign_def update_conv)

lemma um_find_erase [um_simps]:
  "um_find (um_erase k m) k' = (if k' = k then None else um_find m k')"
  by (simp add: um_find_def um_erase_def delete_conv)

lemma um_at_assign [um_simps]:
  "um_at d (um_assign k v m) k' = (if k' = k then v else um_at d m k')"
  by (simp add: um_at_def um_find_assign)

lemma um_keys_find: "k \<in> set (um_keys m) \<longleftrightarrow> um_find m k \<noteq> None"
  by (metis map_of_eq_None_iff um_find_def um_keys_def list.set_map)

lemma um_wf_Nil [simp, wf_intros]: "um_wf []"
  by (simp add: um_wf_def um_keys_def)

lemma um_wf_assign [wf_intros]: "um_wf m \<Longrightarrow> um_wf (um_assign k v m)"
  by (simp add: um_wf_def um_keys_def um_assign_def distinct_update)

lemma um_wf_erase [wf_intros]: "um_wf m \<Longrightarrow> um_wf (um_erase k m)"
  by (simp add: um_wf_def um_keys_def um_erase_def distinct_delete)

lemma um_wf_modify [wf_intros]: "um_wf m \<Longrightarrow> um_wf (um_modify d k f m)"
  by (simp add: um_modify_def um_wf_assign)

lemma um_find_modify [um_simps]:
  "um_find (um_modify d k f m) k' = (if k' = k then Some (f (um_at d m k)) else um_find m k')"
  by (simp add: um_modify_def um_find_assign)

lemma um_keys_assign:
  "um_keys (um_assign k v m) = (if k \<in> set (um_keys m) then um_keys m else um_keys m @ [k])"
  by (simp add: um_keys_def um_assign_def update_keys)

lemma um_keys_modify:
  "um_keys (um_modify d k f m) = (if k \<in> set (um_keys m) then um_keys m else um_keys m @ [k])"
  by (simp add: um_modify_def um_keys_assign)

lemma um_keys_erase: "um_keys (um_erase k m) = filter (\<lambda>k'. k' \<noteq> k) (um_keys m)"
  by (induction m) (auto simp: um_keys_def um_erase_def AList.delete_eq)

lemma um_erase_absent: "k \<notin> set (um_keys m) \<Longrightarrow> um_erase k m = m"
  by (auto simp: um_keys_def um_erase_def delete_idem)

lemma um_find_in_set: "um_wf m \<Longrightarrow> (k, v) \<in> set m \<longleftrightarrow> um_find m k = Some v"
  by (simp add: um_wf_def um_keys_def um_find_def)

text \<open>A property of every element.\<close>

definition um_all :: "('k \<Rightarrow> 'v \<Rightarrow> bool) \<Rightarrow> ('k, 'v) umap \<Rightarrow> bool" where
  "um_all P m \<longleftrightarrow> list_all (\<lambda>(k, v). P k v) m"

lemma um_all_Nil [simp]: "um_all P []"
  by (simp add: um_all_def)

lemma um_all_assign [wf_intros]: "um_all P m \<Longrightarrow> P k v \<Longrightarrow> um_all P (um_assign k v m)"
  by (induction m) (auto simp: um_all_def um_assign_def)

lemma um_all_erase [wf_intros]: "um_all P m \<Longrightarrow> um_all P (um_erase k m)"
  by (auto simp: um_all_def um_erase_def AList.delete_eq list_all_iff)

lemma um_all_find: "um_all P m \<Longrightarrow> um_find m k = Some v \<Longrightarrow> P k v"
  by (auto simp: um_all_def um_find_def list_all_iff dest: map_of_SomeD)

section \<open>The interface of a keyed store\<close>

text \<open>
  What every manager relies on when it uses one of its hash-map members: reading after
  writing and erasing, and distinct keys. The lemmas below it are proved once from the laws.
\<close>

locale keyed_store =
  fixes find :: "'m \<Rightarrow> 'k \<Rightarrow> 'v option"
    and assign :: "'k \<Rightarrow> 'v \<Rightarrow> 'm \<Rightarrow> 'm"
    and erase :: "'k \<Rightarrow> 'm \<Rightarrow> 'm"
    and keys :: "'m \<Rightarrow> 'k list"
    and wf :: "'m \<Rightarrow> bool"
  assumes find_assign: "find (assign k v m) k' = (if k' = k then Some v else find m k')"
    and find_erase: "find (erase k m) k' = (if k' = k then None else find m k')"
    and keys_find: "k \<in> set (keys m) \<longleftrightarrow> find m k \<noteq> None"
    and wf_distinct: "wf m \<Longrightarrow> distinct (keys m)"
    and wf_assign: "wf m \<Longrightarrow> wf (assign k v m)"
    and wf_erase: "wf m \<Longrightarrow> wf (erase k m)"
begin

lemma size_is_card: "wf m \<Longrightarrow> length (keys m) = card (dom (find m))"
proof -
  assume "wf m"
  then have "length (keys m) = card (set (keys m))"
    by (simp add: wf_distinct distinct_card)
  also have "set (keys m) = dom (find m)"
    by (auto simp: keys_find dom_def)
  finally show ?thesis .
qed

lemma dom_assign: "dom (find (assign k v m)) = insert k (dom (find m))"
  by (auto simp: find_assign dom_def)

lemma dom_erase: "dom (find (erase k m)) = dom (find m) - {k}"
  by (auto simp: find_erase dom_def)

lemma size_assign_new:
  assumes "wf m" and "find m k = None"
  shows "length (keys (assign k v m)) = Suc (length (keys m))"
proof -
  have "finite (dom (find m))"
    by (rule finite_subset [of _ "set (keys m)"]) (auto simp: keys_find dom_def)
  with assms show ?thesis
    by (simp add: size_is_card wf_assign dom_assign domIff)
qed

lemma size_assign_old:
  "wf m \<Longrightarrow> find m k \<noteq> None \<Longrightarrow> length (keys (assign k v m)) = length (keys m)"
  by (simp add: size_is_card wf_assign dom_assign insert_absorb domIff)

lemma size_erase: "wf m \<Longrightarrow> length (keys (erase k m)) \<le> length (keys m)"
proof -
  assume "wf m"
  moreover have "finite (dom (find m))"
    by (rule finite_subset [of _ "set (keys m)"]) (auto simp: keys_find dom_def)
  ultimately show ?thesis
    by (simp add: size_is_card wf_erase dom_erase card_mono)
qed

lemma find_erase_all:
  "find (foldl (\<lambda>m k. erase k m) m ks) k = (if k \<in> set ks then None else find m k)"
  by (induction ks arbitrary: m) (auto simp: find_erase)

lemma assign_then_erase: "find (erase k (assign k v m)) = (find m)(k := None)"
  by (auto simp: find_assign find_erase)

end

interpretation um: keyed_store um_find um_assign um_erase um_keys um_wf
  by unfold_locales
    (auto simp: um_find_assign um_find_erase um_keys_find um_wf_def [symmetric] wf_intros
      intro: um_wf_def [THEN iffD1])

section \<open>Range-based for loops over a hash map\<close>

text \<open>
  \<open>for (auto &x : m) body\<close> visits the elements in iteration order. The loop's iterator
  stays valid while the body neither erases nor inserts elements of \<open>m\<close> itself: erasing
  the current element, or an insertion that rehashes, makes the next increment undefined.
  The key list of \<open>m\<close> must therefore be the same after each iteration.
\<close>

fun range_for_keys ::
  "('s \<Rightarrow> ('k, 'v) umap) \<Rightarrow> ('k \<Rightarrow> 's \<Rightarrow> 's outcome) \<Rightarrow> 'k list \<Rightarrow> 's \<Rightarrow> 's outcome" where
  "range_for_keys m body [] s = Normal s"
| "range_for_keys m body (k # ks) s =
     out_bind (body k s) (\<lambda>s'.
       if um_keys (m s') = um_keys (m s) then range_for_keys m body ks s'
       else Undefined Iterator_invalidated)"

definition range_for :: "('s \<Rightarrow> ('k, 'v) umap) \<Rightarrow> ('k \<Rightarrow> 's \<Rightarrow> 's outcome) \<Rightarrow> 's \<Rightarrow> 's outcome" where
  "range_for m body s = range_for_keys m body (um_keys (m s)) s"

lemma range_for_keys_Normal:
  assumes "range_for_keys m body ks s = Normal s'" and "P s"
    and "\<And>k s s'. P s \<Longrightarrow> body k s = Normal s' \<Longrightarrow> P s'"
  shows "P s'"
  using assms(1,2)
proof (induction ks arbitrary: s)
  case Nil
  then show ?case by simp
next
  case (Cons k ks)
  then obtain s1 where s1: "body k s = Normal s1"
      and rest: "range_for_keys m body ks s1 = Normal s'"
    by (auto simp: out_bind_Normal_iff split: if_splits)
  have "P s1" by (rule assms(3) [OF Cons.prems(2) s1])
  then show ?case by (rule Cons.IH [OF rest])
qed

text \<open>
  The contract of a loop body that cannot fail: it returns, and it leaves the keys of the
  container alone. Then the loop is the fold of the body's state change.
\<close>

locale loop_body =
  fixes m :: "'s \<Rightarrow> ('k, 'v) umap"
    and body :: "'k \<Rightarrow> 's \<Rightarrow> 's outcome"
    and step :: "'k \<Rightarrow> 's \<Rightarrow> 's"
  assumes body_returns: "k \<in> set (um_keys (m s)) \<Longrightarrow> body k s = Normal (step k s)"
    and step_keys: "k \<in> set (um_keys (m s)) \<Longrightarrow> um_keys (m (step k s)) = um_keys (m s)"
begin

lemma loop_keys_fold:
  "set ks \<subseteq> set (um_keys (m s)) \<Longrightarrow>
   range_for_keys m body ks s = Normal (foldl (\<lambda>s k. step k s) s ks)"
proof (induction ks arbitrary: s)
  case Nil
  then show ?case by simp
next
  case (Cons k ks)
  then have "k \<in> set (um_keys (m s))" by simp
  with Cons show ?case
    by (simp add: body_returns step_keys)
qed

lemma loop_fold: "range_for m body s = Normal (foldl (\<lambda>s k. step k s) s (um_keys (m s)))"
  by (simp add: range_for_def loop_keys_fold)

lemma loop_invariant:
  assumes "P s" and "\<And>k s. P s \<Longrightarrow> P (step k s)"
  shows "out_all P (range_for m body s)"
proof -
  have "P (foldl (\<lambda>s k. step k s) s ks)" for ks
    using assms by (induction ks arbitrary: s) auto
  then show ?thesis by (simp add: loop_fold)
qed

end

lemma range_for_empty: "m s = [] \<Longrightarrow> range_for m body s = Normal s"
  by (simp add: range_for_def um_keys_def)

text \<open>A body that erases the element it is visiting invalidates the loop's iterator.\<close>

lemma range_for_erasing_undefined:
  assumes "m s \<noteq> []"
    and "\<And>k. k \<in> set (um_keys (m s)) \<Longrightarrow> \<exists>s'. body k s = Normal s' \<and> k \<notin> set (um_keys (m s'))"
  shows "range_for m body s = Undefined Iterator_invalidated"
proof -
  from assms(1) obtain k ks where ks: "um_keys (m s) = k # ks"
    by (cases "m s") (auto simp: um_keys_def)
  with assms(2) [of k] obtain s' where "body k s = Normal s'" and "k \<notin> set (um_keys (m s'))"
    by auto
  with ks show ?thesis by (auto simp: range_for_def)
qed

lemmas container_eval = um_find_def um_assign_def um_erase_def um_keys_def um_at_def um_modify_def range_for_def

section \<open>Small facts about lists and words\<close>

lemma foldl_invariant: "P s \<Longrightarrow> (\<And>s x. P s \<Longrightarrow> P (f s x)) \<Longrightarrow> P (foldl f s xs)"
  by (induction xs arbitrary: s) auto

lemma unat_bound:
  fixes w :: "'a::len word"
  shows "unat w < 2 ^ LENGTH('a)"
  by (rule unsigned_less)

lemma unat_add_no_wrap:
  fixes a b :: "'a::len word"
  shows "unat a + unat b < 2 ^ LENGTH('a) \<Longrightarrow> unat (a + b) = unat a + unat b"
  by (simp add: unat_word_ariths)

lemma unat_mult_no_wrap:
  fixes a b :: "'a::len word"
  shows "unat a * unat b < 2 ^ LENGTH('a) \<Longrightarrow> unat (a * b) = unat a * unat b"
  by (simp add: unat_word_ariths)

text \<open>The bit trick for powers of two.\<close>

lemma nat_and_pred_zero_iff: "0 < n \<Longrightarrow> (n::nat) AND (n - 1) = 0 \<longleftrightarrow> (\<exists>k. n = 2 ^ k)"
proof (induction n rule: less_induct)
  case (less n)
  show ?case
  proof (cases "even n")
    case True
    then obtain m where m: "n = 2 * m" by blast
    with less.prems have pos: "0 < m" by simp
    have "n - 1 = 2 * (m - 1) + 1" using m pos by simp
    then have "n AND (n - 1) = 2 * (m AND (m - 1))"
      by (simp add: m and_nat_rec [of "2 * m"])
    then have "n AND (n - 1) = 0 \<longleftrightarrow> (\<exists>k. m = 2 ^ k)"
      using less.IH [of m] pos m by simp
    also have "\<dots> \<longleftrightarrow> (\<exists>k. n = 2 ^ k)"
    proof
      assume "\<exists>k. m = 2 ^ k"
      then show "\<exists>k. n = 2 ^ k" using m by (metis power_Suc)
    next
      assume "\<exists>k. n = 2 ^ k"
      then obtain k where k: "n = 2 ^ k" by blast
      with True have "k \<noteq> 0" by (cases k) auto
      with k m show "\<exists>k. m = 2 ^ k" by (cases k) auto
    qed
    finally show ?thesis .
  next
    case False
    then obtain m where m: "n = 2 * m + 1" by (metis oddE)
    have "n AND (n - 1) = 2 * m"
      by (simp add: m and_nat_rec [of "Suc (2 * m)"])
    moreover have "(\<exists>k. n = 2 ^ k) \<longleftrightarrow> m = 0"
    proof
      assume "\<exists>k. n = 2 ^ k"
      then obtain k where k: "n = 2 ^ k" by blast
      with False have "k = 0" by (cases k) auto
      with k m show "m = 0" by simp
    next
      assume "m = 0"
      then show "\<exists>k. n = 2 ^ k" using m by (intro exI [of _ 0]) simp
    qed
    ultimately show ?thesis by simp
  qed
qed

lemma word_and_pred_zero_iff:
  fixes w :: "'a::len word"
  assumes "w \<noteq> 0"
  shows "w AND (w - 1) = 0 \<longleftrightarrow> (\<exists>k. unat w = 2 ^ k)"
proof -
  have "unat (w AND (w - 1)) = unat w AND (unat w - 1)"
    using assms by (simp add: unsigned_and_eq unat_minus_one)
  then have "w AND (w - 1) = 0 \<longleftrightarrow> unat w AND (unat w - 1) = 0"
    by (metis unat_eq_zero)
  also have "\<dots> \<longleftrightarrow> (\<exists>k. unat w = 2 ^ k)"
    using assms by (intro nat_and_pred_zero_iff) (simp add: unat_gt_0)
  finally show ?thesis .
qed

end
