(* ===== verification/Cpp_Strings.thy ===== *)
theory Cpp_Strings
  imports Prelude "HOL-Library.Char_ord"
begin

text \<open>
  The string conversions of the C++ standard library the daemons use: \<open>std::to_string\<close>
  on integers, \<open>std::stoi\<close> and \<open>std::stoull\<close> with their exceptions. The round trips
  between them are proved here, and through the interface \<open>codec\<close> the injectivity of
  every textual encoding of the development.
\<close>

section \<open>Encodings and their decoders\<close>

locale codec =
  fixes enc :: "'a \<Rightarrow> 'b" and dec :: "'b \<Rightarrow> 'a option" and ok :: "'a \<Rightarrow> bool"
  assumes dec_enc: "ok x \<Longrightarrow> dec (enc x) = Some x"
begin

lemma enc_eq_iff: "ok x \<Longrightarrow> ok y \<Longrightarrow> enc x = enc y \<longleftrightarrow> x = y"
  by (metis dec_enc option.inject)

lemma enc_inj_on: "inj_on enc {x. ok x}"
  by (auto simp: inj_on_def enc_eq_iff)

end

section \<open>Printing\<close>

definition digit_char :: "nat \<Rightarrow> char" where
  "digit_char d = ''0123456789'' ! d"

fun nat_digits :: "nat \<Rightarrow> string" where
  "nat_digits n =
     (if n < 10 then [digit_char n] else nat_digits (n div 10) @ [digit_char (n mod 10)])"

declare nat_digits.simps [simp del]

text \<open>\<open>std::to_string\<close> of an unsigned and of a signed integer.\<close>

definition to_string :: "'a::len word \<Rightarrow> string" where
  "to_string w = nat_digits (unat w)"

definition to_string_int :: "int \<Rightarrow> string" where
  "to_string_int i = (if i < 0 then CHR ''-'' # nat_digits (nat (- i)) else nat_digits (nat i))"

section \<open>Parsing\<close>

definition digit_val :: "char \<Rightarrow> nat option" where
  "digit_val c =
     (let v = of_char c :: nat in if 48 \<le> v \<and> v \<le> 57 then Some (v - 48) else None)"

definition is_space :: "char \<Rightarrow> bool" where
  "is_space c = (let v = of_char c :: nat in v = 32 \<or> (9 \<le> v \<and> v \<le> 13))"

fun digits_prefix :: "string \<Rightarrow> nat list" where
  "digits_prefix [] = []"
| "digits_prefix (c # s) =
     (case digit_val c of None \<Rightarrow> [] | Some d \<Rightarrow> d # digits_prefix s)"

definition digits_value :: "nat list \<Rightarrow> nat" where
  "digits_value ds = foldl (\<lambda>a d. 10 * a + d) 0 ds"

fun read_sign :: "string \<Rightarrow> bool \<times> string" where
  "read_sign [] = (False, [])"
| "read_sign (c # s) =
     (if c = CHR ''-'' then (True, s) else if c = CHR ''+'' then (False, s) else (False, c # s))"

text \<open>
  What \<open>strtol\<close> and \<open>strtoull\<close> read in base 10: white space, an optional sign, the
  longest prefix of digits; the rest is ignored. \<open>None\<close> is "no conversion".
\<close>

definition strto :: "string \<Rightarrow> (bool \<times> nat) option" where
  "strto s =
     (let (neg, r) = read_sign (dropWhile is_space s); ds = digits_prefix r
      in if ds = [] then None else Some (neg, digits_value ds))"

definition stoi :: "string \<Rightarrow> exn + int" where
  "stoi s =
     (case strto s of
        None \<Rightarrow> Inl Invalid_argument
      | Some (neg, n) \<Rightarrow>
          (let v = (if neg then - int n else int n)
           in if - (2 ^ 31) \<le> v \<and> v \<le> 2 ^ 31 - 1 then Inr v else Inl Out_of_range))"

definition stoull :: "string \<Rightarrow> exn + 64 word" where
  "stoull s =
     (case strto s of
        None \<Rightarrow> Inl Invalid_argument
      | Some (neg, n) \<Rightarrow>
          (if n < 2 ^ 64 then Inr (if neg then - of_nat n else of_nat n) else Inl Out_of_range))"

section \<open>Round trips\<close>

lemma less_ten: "d < 10 \<Longrightarrow> d \<in> {0, 1, 2, 3, 4, 5, 6, 7, 8, 9 :: nat}"
  by auto

lemma digit_val_char: "d < 10 \<Longrightarrow> digit_val (digit_char d) = Some d"
  by (drule less_ten) (auto simp: digit_char_def digit_val_def)

lemma digit_char_in: "d < 10 \<Longrightarrow> digit_char d \<in> set ''0123456789''"
  by (drule less_ten) (auto simp: digit_char_def)

lemma nat_digits_chars: "set (nat_digits n) \<subseteq> set ''0123456789''"
proof (induction n rule: nat_digits.induct)
  case (1 n)
  show ?case
  proof (cases "n < 10")
    case True
    then show ?thesis
      using digit_char_in [OF True] by (subst nat_digits.simps) simp
  next
    case False
    have "set (nat_digits n) = insert (digit_char (n mod 10)) (set (nat_digits (n div 10)))"
      using False by (subst nat_digits.simps) simp
    moreover have "digit_char (n mod 10) \<in> set ''0123456789''"
      by (rule digit_char_in) simp
    ultimately show ?thesis
      using "1" [OF False] by auto
  qed
qed

lemma nat_digits_nonempty [simp]: "nat_digits n \<noteq> []"
  by (subst nat_digits.simps) simp

lemma digits_prefix_snoc:
  "\<forall>c \<in> set s. digit_val c \<noteq> None \<Longrightarrow> digit_val c = Some d \<Longrightarrow>
   digits_prefix (s @ [c]) = digits_prefix s @ [d]"
  by (induction s) auto

lemma digit_val_digit: "c \<in> set ''0123456789'' \<Longrightarrow> digit_val c \<noteq> None"
  by (auto simp: digit_val_def)

lemma nat_digits_are_digits: "\<forall>c \<in> set (nat_digits n). digit_val c \<noteq> None"
  using nat_digits_chars digit_val_digit by blast

lemma digits_value_nat_digits: "digits_value (digits_prefix (nat_digits n)) = n"
proof (induction n rule: nat_digits.induct)
  case (1 n)
  show ?case
  proof (cases "n < 10")
    case True
    then show ?thesis
      by (subst nat_digits.simps) (simp add: digit_val_char digits_value_def)
  next
    case False
    have "digits_prefix (nat_digits n) = digits_prefix (nat_digits (n div 10)) @ [n mod 10]"
      using False by (subst nat_digits.simps)
        (simp add: digits_prefix_snoc nat_digits_are_digits digit_val_char)
    with "1" [OF False] show ?thesis
      by (simp add: digits_value_def)
  qed
qed

lemma digit_not_space: "c \<in> set ''0123456789'' \<Longrightarrow> \<not> is_space c"
  by (auto simp: is_space_def)

lemma strto_nat_digits: "strto (nat_digits n) = Some (False, n)"
proof -
  obtain c s where cs: "nat_digits n = c # s"
    by (cases "nat_digits n") auto
  with nat_digits_chars [of n] have c: "c \<in> set ''0123456789''" by auto
  then have "dropWhile is_space (nat_digits n) = nat_digits n"
    by (simp only: cs digit_not_space dropWhile.simps if_False)
  moreover have "read_sign (nat_digits n) = (False, nat_digits n)"
    using c by (auto simp: cs)
  moreover have "digits_prefix (nat_digits n) \<noteq> []"
    using digit_val_digit [OF c] by (auto simp: cs)
  ultimately show ?thesis
    by (simp add: strto_def digits_value_nat_digits)
qed

lemma stoi_nat_digits: "n < 2 ^ 31 \<Longrightarrow> stoi (nat_digits n) = Inr (int n)"
  by (simp add: stoi_def strto_nat_digits)

lemma stoull_to_string:
  fixes w :: "64 word"
  shows "stoull (to_string w) = Inr w"
proof -
  have "unat w < 2 ^ 64"
    using unat_bound [of w] by simp
  then show ?thesis
    by (simp add: stoull_def to_string_def strto_nat_digits)
qed

interpretation nat_text: codec nat_digits "\<lambda>s. map_option snd (strto s)" "\<lambda>_. True"
  by unfold_locales (simp add: strto_nat_digits)

interpretation word_text: codec "to_string :: 64 word \<Rightarrow> string"
  "\<lambda>s. case stoull s of Inl _ \<Rightarrow> None | Inr w \<Rightarrow> Some w" "\<lambda>_. True"
  by unfold_locales (simp add: stoull_to_string)

lemma to_string_eq_iff [simp]:
  fixes v w :: "'a::len word"
  shows "to_string v = to_string w \<longleftrightarrow> v = w"
  by (simp add: to_string_def nat_text.enc_eq_iff word_unat_eq_iff)

lemma stoi_bounds: "stoi s = Inr v \<Longrightarrow> - (2 ^ 31) \<le> v \<and> v < 2 ^ 31"
  by (auto simp: stoi_def Let_def split: option.splits prod.splits if_splits)

text \<open>The definitions that evaluate conversions of concrete strings.\<close>

lemmas text_eval = to_string_def nat_digits.simps digit_char_def stoi_def strto_def is_space_def
  digit_val_def digits_value_def

section \<open>Fields joined by a separator\<close>

text \<open>The database keys are fields joined by a separator that no field contains.\<close>

lemma separated_inj:
  assumes "c \<notin> set a" and "c \<notin> set b" and "a @ c # x = b @ c # y"
  shows "a = b \<and> x = y"
  using assms
proof (induction a arbitrary: b)
  case Nil
  then show ?case by (cases b) auto
next
  case (Cons d a)
  then show ?case by (cases b) auto
qed

lemma separated_iff:
  "c \<notin> set a \<Longrightarrow> c \<notin> set b \<Longrightarrow> a @ c # x = b @ c # y \<longleftrightarrow> a = b \<and> x = y"
  by (metis separated_inj)

lemma colon_notin_digits [simp]: "CHR '':'' \<notin> set (nat_digits n)"
  and dot_notin_digits [simp]: "CHR ''.'' \<notin> set (nat_digits n)"
  using nat_digits_chars [of n] by auto

lemma colon_notin_to_string [simp]: "CHR '':'' \<notin> set (to_string w)"
  by (simp add: to_string_def)

end
