(* ===== verification/Swss.thy ===== *)
theory Swss
  imports Cpp_Strings
begin

text \<open>
  The parts of the SONiC framework the managers share: the tasks of a consumer table and
  the loop that drains them, the commands sent to the databases as a trace, and the
  rate-limited periodic jobs. The framework itself is not part of the repository: a
  database is only ever written, so a manager's output is the list of its commands in
  order; what a database does with them is not assumed.
\<close>

section \<open>Tasks\<close>

type_synonym fvs = "(string \<times> string) list"

datatype operation = SET_COMMAND | DEL_COMMAND | Other_command string

record task =
  kfvKey :: string
  kfvOp :: operation
  kfvFieldsValues :: fvs

text \<open>Which of a manager's consumer members a task arrived on (\<open>&consumer == &m_...\<close>).\<close>

datatype consumer = Config_consumer | Interface_consumer | Flow_consumer | Unknown_consumer

text \<open>
  \<open>while (it != end) { t = it->second; handle(t); it = erase(it); }\<close>: a task is erased
  after its handler returned. The result is the outcome and the tasks still queued.
\<close>

fun drain :: "('s \<Rightarrow> 't \<Rightarrow> 's outcome) \<Rightarrow> 's \<Rightarrow> 't list \<Rightarrow> 's outcome \<times> 't list" where
  "drain h s [] = (Normal s, [])"
| "drain h s (t # ts) =
     (case h s t of
        Normal s' \<Rightarrow> drain h s' ts
      | Throws e s' \<Rightarrow> (Throws e s', t # ts)
      | Undefined u \<Rightarrow> (Undefined u, t # ts))"

lemma drain_append:
  "drain h s ts = (Normal s', []) \<Longrightarrow> drain h s (ts @ us) = drain h s' us"
  by (induction ts arbitrary: s) (auto split: outcome.splits)

text \<open>Only an outcome other than a normal return leaves tasks behind.\<close>

lemma drain_Normal_empty: "drain h s ts = (Normal s', rest) \<Longrightarrow> rest = []"
  by (induction ts arbitrary: s) (auto split: outcome.splits)

lemma drain_Normal_invariant:
  "drain h s ts = (Normal s', rest) \<Longrightarrow> P s \<Longrightarrow>
   (\<And>s t s'. P s \<Longrightarrow> h s t = Normal s' \<Longrightarrow> P s') \<Longrightarrow> P s'"
  by (induction ts arbitrary: s) (auto split: outcome.splits)

locale task_handler =
  fixes handle :: "'s \<Rightarrow> 't \<Rightarrow> 's outcome" and inv :: "'s \<Rightarrow> bool"
  assumes handle_inv: "inv s \<Longrightarrow> out_all inv (handle s t)"
begin

lemma drain_inv: "inv s \<Longrightarrow> out_all inv (fst (drain handle s ts))"
proof (induction ts arbitrary: s)
  case Nil
  then show ?case by simp
next
  case (Cons t ts)
  then show ?case
    using handle_inv [OF Cons.prems, of t] by (cases "handle s t") auto
qed

lemma drain_inv_Normal: "inv s \<Longrightarrow> drain handle s ts = (Normal s', rest) \<Longrightarrow> inv s'"
  using drain_inv [of s ts] by simp

lemma drain_inv_Throws: "inv s \<Longrightarrow> drain handle s ts = (Throws e s', rest) \<Longrightarrow> inv s'"
  using drain_inv [of s ts] by simp

end

text \<open>A handler that always returns empties its queue.\<close>

locale total_task_handler = task_handler +
  assumes handle_returns: "inv s \<Longrightarrow> returns (handle s t)"
begin

lemma drain_completes: "inv s \<Longrightarrow> \<exists>s'. drain handle s ts = (Normal s', []) \<and> inv s'"
proof (induction ts arbitrary: s)
  case Nil
  then show ?case by simp
next
  case (Cons t ts)
  then obtain s1 where "handle s t = Normal s1" and "inv s1"
    using handle_inv [of s t] handle_returns [of s t] by (cases "handle s t") auto
  then show ?case using Cons.IH by simp
qed

end

section \<open>Database commands\<close>

datatype db = CONFIG_DB | APPL_DB | STATE_DB | COUNTERS_DB

datatype db_cmd =
    Db_set db string fvs \<comment> \<open>\<open>DBConnector::set(key, fvs)\<close>\<close>
  | Db_del db string \<comment> \<open>\<open>DBConnector::del(key)\<close>\<close>

fun cmd_db :: "db_cmd \<Rightarrow> db" where
  "cmd_db (Db_set d k f) = d"
| "cmd_db (Db_del d k) = d"

fun cmd_key :: "db_cmd \<Rightarrow> string" where
  "cmd_key (Db_set d k f) = k"
| "cmd_key (Db_del d k) = k"

text \<open>The last command of a trace on one key of one database.\<close>

definition last_cmd :: "db_cmd list \<Rightarrow> db \<Rightarrow> string \<Rightarrow> db_cmd option" where
  "last_cmd tr d k = List.find (\<lambda>c. cmd_db c = d \<and> cmd_key c = k) (rev tr)"

lemma last_cmd_Nil [simp]: "last_cmd [] d k = None"
  by (simp add: last_cmd_def)

lemma find_append:
  "List.find P (xs @ ys) = (case List.find P xs of None \<Rightarrow> List.find P ys | Some x \<Rightarrow> Some x)"
  by (induction xs) auto

lemma last_cmd_append:
  "last_cmd (tr @ tr') d k =
     (case last_cmd tr' d k of None \<Rightarrow> last_cmd tr d k | Some c \<Rightarrow> Some c)"
  by (simp add: last_cmd_def find_append split: option.splits)

lemma last_cmd_snoc [simp]:
  "last_cmd (tr @ [c]) d k = (if cmd_db c = d \<and> cmd_key c = k then Some c else last_cmd tr d k)"
  by (simp add: last_cmd_def)

text \<open>
  The field list a key was last set to, unless it was deleted since or never written: what
  a trace leaves published under the key.
\<close>

definition published :: "db_cmd list \<Rightarrow> db \<Rightarrow> string \<Rightarrow> fvs option" where
  "published tr d k =
     (case last_cmd tr d k of Some (Db_set _ _ f) \<Rightarrow> Some f | _ \<Rightarrow> None)"

lemma published_Nil [simp]: "published [] d k = None"
  by (simp add: published_def)

lemma published_set [simp]:
  "published (tr @ [Db_set d' k' f]) d k = (if d' = d \<and> k' = k then Some f else published tr d k)"
  by (simp add: published_def)

lemma published_del [simp]:
  "published (tr @ [Db_del d' k']) d k = (if d' = d \<and> k' = k then None else published tr d k)"
  by (simp add: published_def)

text \<open>What a loop publishes that writes one entry per element, under distinct keys.\<close>

lemma published_map:
  assumes "inj key"
  shows "published (tr @ map (\<lambda>i. Db_set d (key i) (f i)) xs) d (key j) =
    (if j \<in> set xs then Some (f j) else published tr d (key j))"
proof (induction xs rule: rev_induct)
  case (snoc i xs)
  have "published ((tr @ map (\<lambda>i. Db_set d (key i) (f i)) xs) @ [Db_set d (key i) (f i)]) d (key j) =
      (if i = j then Some (f j) else if j \<in> set xs then Some (f j) else published tr d (key j))"
    using assms by (simp only: published_set snoc.IH) (auto dest: injD)
  then show ?case by auto
qed simp

lemma published_map_other_db:
  "d' \<noteq> d \<Longrightarrow> published (tr @ map (\<lambda>i. Db_set d' (key i) (f i)) xs) d k = published tr d k"
  by (induction xs rule: rev_induct) (simp_all flip: append_assoc)

section \<open>Rate-limited jobs\<close>

text \<open>
  \<open>if (now - last >= period) { job(); last = now; }\<close>. The times at which a job fires in a
  run of ticks, given the tick and the time stamp it keeps; the run ends where a tick fails.
\<close>

fun fire_times ::
  "(int \<Rightarrow> 's \<Rightarrow> 's outcome) \<Rightarrow> ('s \<Rightarrow> int) \<Rightarrow> int \<Rightarrow> int list \<Rightarrow> 's \<Rightarrow> int list" where
  "fire_times tick stamp period [] s = []"
| "fire_times tick stamp period (t # ts) s =
     (if period \<le> t - stamp s then [t] else [])
     @ (case tick t s of Normal s' \<Rightarrow> fire_times tick stamp period ts s' | _ \<Rightarrow> [])"

text \<open>A finite run of ticks stays below some horizon.\<close>

lemma below_horizon: "\<forall>t \<in> set ts. t < Max (set (0 # ts)) + (1 :: int)"
  by (simp add: zless_add1_eq flip: le_less)

text \<open>
  The contract of a periodic job on a clock that does not run backwards and stays below
  \<open>horizon\<close>: the stamp moves to the time of the tick exactly when the period has elapsed.
\<close>

locale periodic_job =
  fixes tick :: "int \<Rightarrow> 's \<Rightarrow> 's outcome" and stamp :: "'s \<Rightarrow> int"
    and period :: int and horizon :: int
  assumes period_pos: "0 < period"
    and tick_stamp: "stamp s \<le> t \<Longrightarrow> t < horizon \<Longrightarrow> tick t s = Normal s' \<Longrightarrow>
      stamp s' = (if period \<le> t - stamp s then t else stamp s)"
begin

text \<open>After a tick the job's last run is less than a period old.\<close>

lemma tick_fresh:
  "stamp s \<le> t \<Longrightarrow> t < horizon \<Longrightarrow> tick t s = Normal s' \<Longrightarrow> t - stamp s' < period"
  using tick_stamp [of s t s'] period_pos by (auto split: if_splits)

lemma fire_times_after:
  "sorted (stamp s # ts) \<Longrightarrow> \<forall>t \<in> set ts. t < horizon \<Longrightarrow>
   \<forall>x \<in> set (fire_times tick stamp period ts s). stamp s + period \<le> x"
proof (induction ts arbitrary: s)
  case Nil
  then show ?case by simp
next
  case (Cons t ts)
  show ?case
  proof (cases "tick t s")
    case (Normal s')
    then have s': "stamp s' = (if period \<le> t - stamp s then t else stamp s)"
      using tick_stamp Cons.prems by simp
    then have "sorted (stamp s' # ts)" using Cons.prems by auto
    then have "\<forall>x \<in> set (fire_times tick stamp period ts s'). stamp s' + period \<le> x"
      using Cons by simp
    moreover have "stamp s \<le> stamp s'" using s' Cons.prems by auto
    ultimately show ?thesis using Normal by auto
  qed auto
qed

text \<open>Two runs of the job are at least a period apart, however often the loop ticks.\<close>

lemma fire_times_spaced:
  "sorted (stamp s # ts) \<Longrightarrow> \<forall>t \<in> set ts. t < horizon \<Longrightarrow>
   sorted_wrt (\<lambda>a b. a + period \<le> b) (fire_times tick stamp period ts s)"
proof (induction ts arbitrary: s)
  case Nil
  then show ?case by simp
next
  case (Cons t ts)
  show ?case
  proof (cases "tick t s")
    case (Normal s')
    then have s': "stamp s' = (if period \<le> t - stamp s then t else stamp s)"
      using tick_stamp Cons.prems by simp
    then have sorted: "sorted (stamp s' # ts)" using Cons.prems by auto
    then have "sorted_wrt (\<lambda>a b. a + period \<le> b) (fire_times tick stamp period ts s')"
      using Cons by simp
    then show ?thesis
      using Normal s' fire_times_after [OF sorted] Cons.prems by auto
  qed auto
qed

end

text \<open>
  A job whose tick always returns is also never late: at every tick, once a period has passed,
  its last run is less than a period ago.
\<close>

locale live_job = periodic_job +
  assumes tick_returns: "stamp s \<le> t \<Longrightarrow> t < horizon \<Longrightarrow> returns (tick t s)"
begin

lemma fire_times_fresh:
  "sorted (stamp s # ts) \<Longrightarrow> \<forall>t \<in> set ts. t < horizon \<Longrightarrow> t \<in> set ts \<Longrightarrow> stamp s + period \<le> t \<Longrightarrow>
   \<exists>x \<in> set (fire_times tick stamp period ts s). t - period < x \<and> x \<le> t"
proof (induction ts arbitrary: s)
  case Nil
  then show ?case by simp
next
  case (Cons u ts)
  then obtain s' where s': "tick u s = Normal s'"
    using tick_returns [of s u] by (cases "tick u s") auto
  have stamp: "stamp s' = (if period \<le> u - stamp s then u else stamp s)"
    using tick_stamp s' Cons.prems by simp
  show ?case
  proof (cases "t = u \<or> t < stamp s' + period")
    case True
    then have "period \<le> u - stamp s" using Cons.prems(4) stamp by (auto split: if_splits)
    with True stamp period_pos Cons.prems(1,3) show ?thesis by (auto intro!: bexI [of _ u])
  next
    case False
    then have "\<exists>x \<in> set (fire_times tick stamp period ts s'). t - period < x \<and> x \<le> t"
      using Cons.IH [of s'] Cons.prems stamp by (auto split: if_splits)
    then show ?thesis using s' by auto
  qed
qed

end

end
