(* ===== verification/Cpp_Double.thy ===== *)
theory Cpp_Double
  imports Cpp_Strings "HOL-Library.Log_Nat" Complex_Main
begin

text \<open>
  The part of IEEE-754 binary64 arithmetic the daemons compute with: conversions from
  unsigned integers, quotients and products of non-negative values, rounded to nearest
  with ties to even. A finite non-negative double is the rational it denotes. Every value
  of the program that is not zero lies between \<open>2^-64\<close> and \<open>2^90\<close>, far from the
  subnormal numbers and from overflow, so the exponent is not limited here.
\<close>

section \<open>Rounding\<close>

text \<open>\<open>expo x\<close> is the binary exponent of a positive rational, from the lengths of its fraction.\<close>

definition expo :: "rat \<Rightarrow> int" where
  "expo x =
     (let (n, d) = quotient_of x; k = bitlen n - bitlen d
      in if 2 powi k \<le> x then k else k - 1)"

definition round_half_even :: "rat \<Rightarrow> int" where
  "round_half_even x =
     (let f = \<lfloor>x\<rfloor>; r = x - of_int f
      in if r < 1 / 2 then f else if 1 / 2 < r then f + 1 else if even f then f else f + 1)"

definition rnd64 :: "rat \<Rightarrow> rat" where
  "rnd64 x =
     (if x \<le> 0 then 0
      else let u = 2 powi (expo x - 52) in of_int (round_half_even (x / u)) * u)"

text \<open>\<open>(double)a / b\<close> for unsigned integers, and the product of a double with a constant.\<close>

definition double_ratio :: "nat \<Rightarrow> nat \<Rightarrow> rat" where
  "double_ratio a b = rnd64 (rnd64 (of_nat a) / rnd64 (of_nat b))"

definition double_mult :: "rat \<Rightarrow> rat \<Rightarrow> rat" where
  "double_mult x y = rnd64 (x * y)"

text \<open>\<open>std::to_string(double)\<close> prints like \<open>%f\<close>, with six decimals.\<close>

definition pad6 :: "nat \<Rightarrow> string" where
  "pad6 n = map (\<lambda>i. digit_char ((n div 10 ^ i) mod 10)) [5, 4, 3, 2, 1, 0]"

definition to_string_double :: "rat \<Rightarrow> string" where
  "to_string_double x =
     (let n = nat (round_half_even (x * 1000000))
      in nat_digits (n div 1000000) @ CHR ''.'' # pad6 (n mod 1000000))"

section \<open>The exponent\<close>

lemma quotient_of_pos:
  assumes "0 < x" and "quotient_of x = (n, d)"
  shows "0 < n" and "0 < d" and "x = of_int n / of_int d"
proof -
  show d: "0 < d" by (rule quotient_of_denom_pos [OF assms(2)])
  show x: "x = of_int n / of_int d" by (rule quotient_of_div [OF assms(2)])
  from assms(1) d show "0 < n" by (simp add: x zero_less_divide_iff)
qed

lemma bitlen_powi:
  assumes "0 < n"
  shows "(2::rat) powi (bitlen n - 1) \<le> of_int n" and "of_int n < (2::rat) powi (bitlen n)"
proof -
  from assms have b: "2 ^ nat (bitlen n - 1) \<le> n \<and> n < 2 ^ nat (bitlen n)"
    by (rule bitlen_bounds)
  from assms have "0 < bitlen n"
    by (simp add: bitlen_def floorlog_def add_pos_nonneg)
  then have "(2::rat) powi (bitlen n - 1) = of_int (2 ^ nat (bitlen n - 1))"
    and "(2::rat) powi (bitlen n) = of_int (2 ^ nat (bitlen n))"
    by (simp_all add: power_int_def)
  with b show "(2::rat) powi (bitlen n - 1) \<le> of_int n" and "of_int n < (2::rat) powi (bitlen n)"
    by (simp_all only: of_int_le_iff of_int_less_iff)
qed

lemma expo_bounds:
  assumes "0 < x"
  shows "2 powi (expo x) \<le> x" and "x < 2 powi (expo x + 1)"
proof -
  obtain n d where q: "quotient_of x = (n, d)" by (cases "quotient_of x")
  note nd = quotient_of_pos [OF assms q]
  define k where "k = bitlen n - bitlen d"
  have "of_int n < (2::rat) powi (bitlen n)"
    by (rule bitlen_powi(2) [OF nd(1)])
  also have "\<dots> = 2 powi (k + 1) * 2 powi (bitlen d - 1)"
    by (simp add: k_def power_int_add [symmetric])
  also have "\<dots> \<le> 2 powi (k + 1) * of_int d"
    using bitlen_powi(1) [OF nd(2)] by simp
  finally have upper: "x < 2 powi (k + 1)"
    using nd by (simp add: divide_less_eq)
  have "2 powi (k - 1) * of_int d < (2::rat) powi (k - 1) * 2 powi (bitlen d)"
    using bitlen_powi(2) [OF nd(2)] by simp
  also have "\<dots> = 2 powi (bitlen n - 1)"
    by (simp add: k_def power_int_add [symmetric])
  also have "\<dots> \<le> of_int n"
    by (rule bitlen_powi(1) [OF nd(1)])
  finally have lower: "2 powi (k - 1) < x"
    using nd by (simp add: less_divide_eq)
  show "2 powi (expo x) \<le> x" and "x < 2 powi (expo x + 1)"
    using upper lower by (auto simp: expo_def q k_def Let_def)
qed

lemma powi_mono: "i \<le> j \<Longrightarrow> (2::rat) powi i \<le> 2 powi j"
  by (rule power_int_increasing) auto

lemma expo_mono:
  assumes "0 < x" and "x \<le> y"
  shows "expo x \<le> expo y"
proof (rule ccontr)
  assume "\<not> expo x \<le> expo y"
  then have "(2::rat) powi (expo y + 1) \<le> 2 powi (expo x)"
    by (intro powi_mono) simp
  with expo_bounds(1) [of x] expo_bounds(2) [of y] assms show False by simp
qed

section \<open>Rounding is monotone and exact where it can be\<close>

lemma round_half_even_int [simp]: "round_half_even (of_int i) = i"
  by (simp add: round_half_even_def)

lemma round_half_even_cases:
  "round_half_even x = \<lfloor>x\<rfloor> \<and> x - of_int \<lfloor>x\<rfloor> \<le> 1 / 2 \<or>
   round_half_even x = \<lfloor>x\<rfloor> + 1 \<and> 1 / 2 \<le> x - of_int \<lfloor>x\<rfloor>"
  by (auto simp: round_half_even_def Let_def)

lemma round_half_even_mono:
  assumes "x \<le> y"
  shows "round_half_even x \<le> round_half_even y"
proof (cases "\<lfloor>x\<rfloor> = \<lfloor>y\<rfloor>")
  case True
  then show ?thesis
    using assms by (auto simp: round_half_even_def Let_def)
next
  case False
  then have "\<lfloor>x\<rfloor> + 1 \<le> \<lfloor>y\<rfloor>"
    using floor_mono [OF assms] by linarith
  then show ?thesis
    using round_half_even_cases [of x] round_half_even_cases [of y] by linarith
qed

lemma rnd64_zero [simp]: "rnd64 0 = 0"
  by (simp add: rnd64_def)

lemma rnd64_range:
  assumes "0 < x"
  shows "2 powi (expo x) \<le> rnd64 x" and "rnd64 x \<le> 2 powi (expo x + 1)"
proof -
  define u where "u = (2::rat) powi (expo x - 52)"
  have u: "0 < u" by (simp add: u_def)
  have p: "2 powi (expo x) = of_int (2 ^ 52) * u" "2 powi (expo x + 1) = of_int (2 ^ 53) * u"
    unfolding u_def by (simp_all add: power_int_diff power_int_add)
  have "of_int (2 ^ 52) \<le> x / u" and "x / u \<le> of_int (2 ^ 53)"
    using expo_bounds [OF assms] u by (simp_all add: p le_divide_eq divide_le_eq)
  then have "2 ^ 52 \<le> round_half_even (x / u)" and "round_half_even (x / u) \<le> 2 ^ 53"
    using round_half_even_mono [of "of_int (2 ^ 52)" "x / u"]
      round_half_even_mono [of "x / u" "of_int (2 ^ 53)"]
    by (simp_all only: round_half_even_int)
  moreover have "rnd64 x = of_int (round_half_even (x / u)) * u"
    using assms by (simp add: rnd64_def u_def Let_def)
  ultimately show "2 powi (expo x) \<le> rnd64 x" and "rnd64 x \<le> 2 powi (expo x + 1)"
    unfolding p using u by (simp_all only: mult_le_cancel_right_pos of_int_le_iff)
qed

lemma rnd64_nonneg: "0 \<le> rnd64 x"
proof (cases "0 < x")
  case True
  then have "2 powi (expo x) \<le> rnd64 x" by (rule rnd64_range)
  moreover have "(0::rat) \<le> 2 powi (expo x)" by simp
  ultimately show ?thesis by (rule order_trans [rotated])
next
  case False
  then show ?thesis by (simp add: rnd64_def)
qed

lemma rnd64_mono:
  assumes "x \<le> y"
  shows "rnd64 x \<le> rnd64 y"
proof (cases "0 < x")
  case False
  then show ?thesis
    using rnd64_nonneg [of y] by (simp add: rnd64_def [of x])
next
  case True
  with assms have y: "0 < y" by simp
  show ?thesis
  proof (cases "expo x = expo y")
    case True
    have "round_half_even (x / 2 powi (expo y - 52)) \<le> round_half_even (y / 2 powi (expo y - 52))"
      using assms by (intro round_half_even_mono divide_right_mono) auto
    then show ?thesis
      using \<open>0 < x\<close> y True by (simp add: rnd64_def Let_def)
  next
    case False
    with expo_mono [OF \<open>0 < x\<close> assms] have "(2::rat) powi (expo x + 1) \<le> 2 powi (expo y)"
      by (intro powi_mono) simp
    with rnd64_range(2) [OF \<open>0 < x\<close>] rnd64_range(1) [OF y] show ?thesis by linarith
  qed
qed

text \<open>A value with at most 53 significant bits is its own rounding.\<close>

lemma rnd64_multiple:
  assumes "0 < x" and "x = of_int j * 2 powi (expo x - 52)"
  shows "rnd64 x = x"
proof -
  from assms(2) have "x / 2 powi (expo x - 52) = of_int j"
    by (metis nonzero_mult_div_cancel_right power_int_eq_0_iff zero_neq_numeral)
  then have "round_half_even (x / 2 powi (expo x - 52)) = j" by simp
  with assms show ?thesis by (simp add: rnd64_def Let_def)
qed

lemma rnd64_exact:
  assumes "0 < m" and "m \<le> 2 ^ 53" and x: "x = of_int m * 2 powi e"
  shows "rnd64 x = x"
proof -
  have pos: "0 < x" using assms by simp
  have m: "of_int m \<le> (2::rat) powi 53"
    using assms(2) by (metis of_int_le_iff of_int_numeral of_int_power power_int_numeral)
  then have "x \<le> 2 powi (e + 53)"
    by (simp add: x power_int_add)
  show ?thesis
  proof (cases "expo x - 52 \<le> e")
    case True
    then have "x = of_int (m * 2 ^ nat (e - (expo x - 52))) * 2 powi (expo x - 52)"
      by (simp add: x power_int_def [of 2 "e - (expo x - 52)", symmetric] power_int_add [symmetric]
          flip: power_int_of_nat)
    with pos show ?thesis by (rule rnd64_multiple)
  next
    case False
    then have "(2::rat) powi (e + 53) \<le> 2 powi (expo x)"
      by (intro powi_mono) simp
    with expo_bounds(1) [OF pos] \<open>x \<le> 2 powi (e + 53)\<close>
    have "x = 2 powi (expo x)" by linarith
    then have "x = of_int (2 ^ 52) * 2 powi (expo x - 52)"
      by (simp add: power_int_diff)
    with pos show ?thesis by (rule rnd64_multiple)
  qed
qed

lemma rnd64_int: "0 \<le> i \<Longrightarrow> i \<le> 2 ^ 53 \<Longrightarrow> rnd64 (of_int i) = of_int i"
  using rnd64_exact [of i "of_int i" 0] by (cases "i = 0") auto

section \<open>Ratios and percentages\<close>

text \<open>
  What the derived statistics rely on: rounding is monotone and leaves small integers alone.
\<close>

locale rounding =
  fixes rnd :: "rat \<Rightarrow> rat"
  assumes rnd_mono: "x \<le> y \<Longrightarrow> rnd x \<le> rnd y"
    and rnd_small: "0 \<le> i \<Longrightarrow> i \<le> 2 ^ 53 \<Longrightarrow> rnd (of_int i) = of_int i"
begin

lemma rnd_0: "rnd 0 = 0"
  using rnd_small [of 0] by simp

lemma rnd_nonneg: "0 \<le> x \<Longrightarrow> 0 \<le> rnd x"
  using rnd_mono [of 0 x] by (simp add: rnd_0)

lemma rnd_nat: "n \<le> 2 ^ 53 \<Longrightarrow> rnd (of_nat n) = of_nat n"
  using rnd_small [of "int n"] by simp

lemma rnd_nat_pos:
  assumes "0 < n"
  shows "1 \<le> rnd (of_nat n)"
proof -
  have "rnd (of_int 1) \<le> rnd (of_nat n)"
    using assms by (intro rnd_mono) simp
  then show ?thesis using rnd_small [of 1] by simp
qed

lemma ratio_bounds:
  assumes "a \<le> b" and "0 < b"
  shows "0 \<le> rnd (rnd (of_nat a) / rnd (of_nat b))" and "rnd (rnd (of_nat a) / rnd (of_nat b)) \<le> 1"
proof -
  have b: "1 \<le> rnd (of_nat b)" by (rule rnd_nat_pos [OF assms(2)])
  have ab: "rnd (of_nat a) \<le> rnd (of_nat b)"
    using assms(1) by (intro rnd_mono) simp
  have a: "0 \<le> rnd (of_nat a)" by (rule rnd_nonneg) simp
  show "0 \<le> rnd (rnd (of_nat a) / rnd (of_nat b))"
    using a b by (intro rnd_nonneg) simp
  have "rnd (of_nat a) / rnd (of_nat b) \<le> of_int 1"
    using ab b by (simp add: divide_le_eq)
  then show "rnd (rnd (of_nat a) / rnd (of_nat b)) \<le> 1"
    using rnd_mono rnd_small [of 1] by fastforce
qed

lemma ratio_mono:
  assumes "a \<le> a'"
  shows "rnd (rnd (of_nat a) / rnd (of_nat b)) \<le> rnd (rnd (of_nat a') / rnd (of_nat b))"
proof -
  have "0 \<le> rnd (of_nat b)" by (rule rnd_nonneg) simp
  moreover have "rnd (of_nat a) \<le> rnd (of_nat a')"
    using assms by (intro rnd_mono) simp
  ultimately show ?thesis by (blast intro: rnd_mono [OF divide_right_mono])
qed

lemma ratio_small:
  "a \<le> 2 ^ 53 \<Longrightarrow> b \<le> 2 ^ 53 \<Longrightarrow> rnd (rnd (of_nat a) / rnd (of_nat b)) = rnd (of_nat a / of_nat b)"
  by (simp add: rnd_nat)

end

interpretation double: rounding rnd64
  by unfold_locales (simp_all add: rnd64_mono rnd64_int)

end
