(* ===== verification/Llr_Manager.thy ===== *)
theory Llr_Manager
  imports Swss Cpp_Double
begin

text \<open>
  \<open>sonic-ue-linkd/src/ue_llr_manager.cpp\<close>: the Link Layer Retry manager. The header
  \<open>ue_llr_manager.h\<close> is not in the repository; field types are those the code assigns
  and prints (\<open>uint32_t\<close> configuration, \<open>uint64_t\<close> counters), the table-name macros
  and \<open>std::hash<std::string>\<close> are fields of the environment record.
\<close>

unbundle bit_operations_syntax

section \<open>State\<close>

record LLRConfig =
  g_enabled :: bool
  g_max_retries :: "32 word"
  g_timeout_ms :: "32 word"
  g_window_size :: "32 word"
  g_selective_repeat :: bool

record LLRInterfaceConfig =
  i_enabled :: bool
  i_max_retries :: "32 word"
  i_timeout_ms :: "32 word"
  i_buffer_size :: "32 word"
  i_stats_enable :: bool

record LLRStats =
  retry_count :: "64 word"
  success_count :: "64 word"
  timeout_count :: "64 word"
  latency_improvement_ns :: "64 word"
  frames_transmitted :: "64 word"
  frames_retransmitted :: "64 word"

record llr_env =
  APP_UE_LLR_GLOBAL_TABLE_NAME :: string
  STATE_UE_LLR_STATS_TABLE_NAME :: string
  string_hash :: "string \<Rightarrow> 64 word"

record llr_state =
  m_global_llr_config :: LLRConfig
  m_llr_interfaces :: "(string, LLRInterfaceConfig) umap"
  m_llr_stats :: "(string, LLRStats) umap"
  m_llr_sai_objects :: "(string, 64 word) umap"
  llr_last_stats_update :: int
  llr_io :: "db_cmd list"

definition UELLRManager :: llr_state where
  "UELLRManager =
     \<lparr>m_global_llr_config =
        \<lparr>g_enabled = False, g_max_retries = 3, g_timeout_ms = 5, g_window_size = 256,
         g_selective_repeat = True\<rparr>,
      m_llr_interfaces = [], m_llr_stats = [], m_llr_sai_objects = [],
      llr_last_stats_update = 0, llr_io = []\<rparr>"

definition zero_stats :: LLRStats where
  "zero_stats =
     \<lparr>retry_count = 0, success_count = 0, timeout_count = 0, latency_improvement_ns = 0,
      frames_transmitted = 0, frames_retransmitted = 0\<rparr>"

definition bool_text :: "bool \<Rightarrow> string" where
  "bool_text b = (if b then ''true'' else ''false'')"

definition llr_emit :: "db_cmd \<Rightarrow> llr_state \<Rightarrow> llr_state" where
  "llr_emit c s = s\<lparr>llr_io := llr_io s @ [c]\<rparr>"

definition llr_app_key :: "llr_env \<Rightarrow> string \<Rightarrow> string" where
  "llr_app_key E i = APP_UE_LLR_GLOBAL_TABLE_NAME E @ CHR '':'' # i"

definition llr_stats_key :: "llr_env \<Rightarrow> string \<Rightarrow> string" where
  "llr_stats_key E i = STATE_UE_LLR_STATS_TABLE_NAME E @ CHR '':'' # i"

section \<open>Interfaces\<close>

definition llr_getPortOid :: "llr_env \<Rightarrow> string \<Rightarrow> (64 word) option" where
  "llr_getPortOid E interface =
     Some (0x1000000000000000 OR (string_hash E interface AND 0xFFFFFFFFFFFF))"

definition interface_fvs :: "LLRInterfaceConfig \<Rightarrow> 64 word \<Rightarrow> fvs" where
  "interface_fvs config port_oid =
     [(''enabled'', ''true''),
      (''max_retries'', to_string (i_max_retries config)),
      (''timeout_ms'', to_string (i_timeout_ms config)),
      (''buffer_size'', to_string (i_buffer_size config)),
      (''port_oid'', to_string port_oid)]"

definition applyLLRToInterface ::
  "llr_env \<Rightarrow> string \<Rightarrow> LLRInterfaceConfig \<Rightarrow> llr_state \<Rightarrow> llr_state" where
  "applyLLRToInterface E interface config s =
     (case llr_getPortOid E interface of
        None \<Rightarrow> s
      | Some port_oid \<Rightarrow>
          llr_emit (Db_set APPL_DB (llr_app_key E interface) (interface_fvs config port_oid)) s)"

definition enableInterfaceLLR ::
  "llr_env \<Rightarrow> string \<Rightarrow> LLRInterfaceConfig \<Rightarrow> llr_state \<Rightarrow> llr_state" where
  "enableInterfaceLLR E interface config s =
     (let s1 = s\<lparr>m_llr_interfaces := um_assign interface config (m_llr_interfaces s)\<rparr>;
          s2 = (if g_enabled (m_global_llr_config s1)
                then applyLLRToInterface E interface config s1 else s1)
      in s2\<lparr>m_llr_stats := um_assign interface zero_stats (m_llr_stats s2)\<rparr>)"

definition disableInterfaceLLR :: "llr_env \<Rightarrow> string \<Rightarrow> llr_state \<Rightarrow> llr_state" where
  "disableInterfaceLLR E interface s =
     (let s1 = s\<lparr>m_llr_interfaces := um_erase interface (m_llr_interfaces s)\<rparr>;
          s2 = (if um_find (m_llr_sai_objects s1) interface \<noteq> None
                then s1\<lparr>m_llr_sai_objects := um_erase interface (m_llr_sai_objects s1)\<rparr> else s1);
          s3 = s2\<lparr>m_llr_stats := um_erase interface (m_llr_stats s2)\<rparr>
      in llr_emit (Db_del STATE_DB (llr_stats_key E interface))
           (llr_emit (Db_del APPL_DB (llr_app_key E interface)) s3))"

section \<open>Global configuration\<close>

definition enabled_fvs :: "LLRConfig \<Rightarrow> fvs" where
  "enabled_fvs c =
     [(''enabled'', ''true''),
      (''max_retries'', to_string (g_max_retries c)),
      (''timeout_ms'', to_string (g_timeout_ms c)),
      (''window_size'', to_string (g_window_size c)),
      (''selective_repeat'', bool_text (g_selective_repeat c))]"

definition apply_if_enabled :: "llr_env \<Rightarrow> string \<Rightarrow> llr_state \<Rightarrow> llr_state" where
  "apply_if_enabled E i s =
     (case um_find (m_llr_interfaces s) i of
        None \<Rightarrow> s
      | Some config \<Rightarrow> if i_enabled config then applyLLRToInterface E i config s else s)"

definition enableGlobalLLR ::
  "llr_env \<Rightarrow> 32 word \<Rightarrow> 32 word \<Rightarrow> 32 word \<Rightarrow> bool \<Rightarrow> llr_state \<Rightarrow> llr_state outcome" where
  "enableGlobalLLR E max_retries timeout_ms window_size selective_repeat s =
     (let c = \<lparr>g_enabled = True, g_max_retries = max_retries, g_timeout_ms = timeout_ms,
               g_window_size = window_size, g_selective_repeat = selective_repeat\<rparr>;
          s1 = llr_emit (Db_set APPL_DB (llr_app_key E ''global'') (enabled_fvs c))
                 (s\<lparr>m_global_llr_config := c\<rparr>)
      in range_for m_llr_interfaces (\<lambda>i s. Normal (apply_if_enabled E i s)) s1)"

text \<open>
  The loop of \<open>disableGlobalLLR\<close> calls \<open>disableInterfaceLLR\<close>, which erases the element
  the range-based \<open>for\<close> is visiting.
\<close>

definition disableGlobalLLR :: "llr_env \<Rightarrow> llr_state \<Rightarrow> llr_state outcome" where
  "disableGlobalLLR E s =
     (let s1 = llr_emit (Db_set APPL_DB (llr_app_key E ''global'') [(''enabled'', ''false'')])
                 (s\<lparr>m_global_llr_config := (m_global_llr_config s)\<lparr>g_enabled := False\<rparr>\<rparr>)
      in out_bind
           (range_for m_llr_interfaces (\<lambda>i s. Normal (disableInterfaceLLR E i s)) s1)
           (\<lambda>s2. Normal (s2\<lparr>m_llr_sai_objects := []\<rparr>)))"

section \<open>Parsing the configuration\<close>

record llr_locals =
  l_enabled :: bool
  l_max_retries :: "32 word"
  l_timeout_ms :: "32 word"
  l_window_size :: "32 word"
  l_selective_repeat :: bool

definition llr_defaults :: llr_locals where
  "llr_defaults =
     \<lparr>l_enabled = False, l_max_retries = 3, l_timeout_ms = 5, l_window_size = 256,
      l_selective_repeat = True\<rparr>"

text \<open>The range checks on the values of \<open>std::stoi\<close> converted to \<open>uint32_t\<close>.\<close>

definition check_max_retries :: "32 word \<Rightarrow> 32 word" where
  "check_max_retries w = (if w < 1 \<or> 10 < w then 3 else w)"

definition check_timeout_ms :: "32 word \<Rightarrow> 32 word" where
  "check_timeout_ms w = (if w < 1 \<or> 100 < w then 5 else w)"

definition check_window_size :: "32 word \<Rightarrow> 32 word" where
  "check_window_size w =
     (let w1 = (if w = 0 \<or> w AND (w - 1) \<noteq> 0 then 256 else w)
      in if w1 < 16 \<or> 1024 < w1 then 256 else w1)"

fun llr_field :: "llr_locals \<Rightarrow> string \<times> string \<Rightarrow> llr_locals" where
  "llr_field l (field, value) =
     (if field = ''llr_enable'' then l\<lparr>l_enabled := (value = ''true'')\<rparr>
      else if field = ''llr_max_retries'' then
        (case stoi value of Inl _ \<Rightarrow> l
         | Inr v \<Rightarrow> l\<lparr>l_max_retries := check_max_retries (word_of_int v)\<rparr>)
      else if field = ''llr_timeout_ms'' then
        (case stoi value of Inl _ \<Rightarrow> l
         | Inr v \<Rightarrow> l\<lparr>l_timeout_ms := check_timeout_ms (word_of_int v)\<rparr>)
      else if field = ''llr_window_size'' then
        (case stoi value of Inl _ \<Rightarrow> l
         | Inr v \<Rightarrow> l\<lparr>l_window_size := check_window_size (word_of_int v)\<rparr>)
      else if field = ''llr_selective_repeat'' then l\<lparr>l_selective_repeat := (value = ''true'')\<rparr>
      else l)"

definition parse_llr :: "fvs \<Rightarrow> llr_locals" where
  "parse_llr vals = foldl llr_field llr_defaults vals"

definition processLLRConfig ::
  "llr_env \<Rightarrow> string \<Rightarrow> operation \<Rightarrow> fvs \<Rightarrow> llr_state \<Rightarrow> llr_state outcome" where
  "processLLRConfig E key op vals s =
     (if key \<noteq> ''global'' then Normal s
      else case op of
        SET_COMMAND \<Rightarrow>
          (let l = parse_llr vals
           in if l_enabled l
              then enableGlobalLLR E (l_max_retries l) (l_timeout_ms l) (l_window_size l)
                     (l_selective_repeat l) s
              else disableGlobalLLR E s)
      | DEL_COMMAND \<Rightarrow> disableGlobalLLR E s
      | Other_command _ \<Rightarrow> Normal s)"

text \<open>The flag is \<open>found_llr_config\<close>.\<close>

fun interface_field :: "LLRInterfaceConfig \<times> bool \<Rightarrow> string \<times> string \<Rightarrow> LLRInterfaceConfig \<times> bool" where
  "interface_field (config, found) (field, value) =
     (if field = ''llr_enable'' then (config\<lparr>i_enabled := (value = ''true'')\<rparr>, True)
      else if field = ''ue_enable'' \<and> value = ''true'' then (config, True)
      else (config, found))"

definition processInterfaceConfig ::
  "llr_env \<Rightarrow> string \<Rightarrow> operation \<Rightarrow> fvs \<Rightarrow> llr_state \<Rightarrow> llr_state" where
  "processInterfaceConfig E interface op vals s =
     (case op of
        SET_COMMAND \<Rightarrow>
          (let config0 = \<lparr>i_enabled = False,
                          i_max_retries = g_max_retries (m_global_llr_config s),
                          i_timeout_ms = g_timeout_ms (m_global_llr_config s),
                          i_buffer_size = 1024, i_stats_enable = True\<rparr>;
               (config, found) = foldl interface_field (config0, False) vals
           in if found
              then if i_enabled config then enableInterfaceLLR E interface config s
                   else disableInterfaceLLR E interface s
              else s)
      | DEL_COMMAND \<Rightarrow> disableInterfaceLLR E interface s
      | Other_command _ \<Rightarrow> s)"

definition llr_handle :: "llr_env \<Rightarrow> consumer \<Rightarrow> llr_state \<Rightarrow> task \<Rightarrow> llr_state outcome" where
  "llr_handle E c s t =
     try_catch
       (case c of
          Config_consumer \<Rightarrow> processLLRConfig E (kfvKey t) (kfvOp t) (kfvFieldsValues t) s
        | Interface_consumer \<Rightarrow>
            Normal (processInterfaceConfig E (kfvKey t) (kfvOp t) (kfvFieldsValues t) s)
        | _ \<Rightarrow> Normal s)"

definition llr_doTask ::
  "llr_env \<Rightarrow> consumer \<Rightarrow> llr_state \<Rightarrow> task list \<Rightarrow> llr_state outcome \<times> task list" where
  "llr_doTask E c s ts = drain (llr_handle E c) s ts"

section \<open>Statistics\<close>

text \<open>
  \<open>new_retries\<close> and \<open>new_successes\<close> are the two samples drawn for the interface. A
  conversion of a \<open>double\<close> that does not fit the integer type is undefined.
\<close>

definition stats_fvs :: "LLRStats \<Rightarrow> fvs" where
  "stats_fvs st =
     [(''retry_count'', to_string (retry_count st)),
      (''success_count'', to_string (success_count st)),
      (''timeout_count'', to_string (timeout_count st)),
      (''latency_improvement_ns'', to_string (latency_improvement_ns st)),
      (''frames_transmitted'', to_string (frames_transmitted st)),
      (''frames_retransmitted'', to_string (frames_retransmitted st))]"

definition add_samples :: "64 word \<Rightarrow> 64 word \<Rightarrow> LLRStats \<Rightarrow> LLRStats" where
  "add_samples new_retries new_successes st =
     st\<lparr>retry_count := retry_count st + new_retries,
        success_count := success_count st + new_successes,
        frames_transmitted := frames_transmitted st + (new_retries + new_successes),
        frames_retransmitted := frames_retransmitted st + new_retries\<rparr>"

definition retry_latency :: "LLRStats \<Rightarrow> rat" where
  "retry_latency st =
     double_mult (double_ratio (unat (retry_count st)) (unat (frames_transmitted st))) 1000000"

definition success_rate :: "LLRStats \<Rightarrow> rat" where
  "success_rate st =
     double_mult (double_ratio (unat (success_count st)) (unat (frames_transmitted st))) 100"

definition updateInterfaceLLRStats ::
  "llr_env \<Rightarrow> 64 word \<times> 64 word \<Rightarrow> string \<Rightarrow> llr_state \<Rightarrow> llr_state outcome" where
  "updateInterfaceLLRStats E sample interface s =
     (let st = add_samples (fst sample) (snd sample) (um_at zero_stats (m_llr_stats s) interface)
      in if frames_transmitted st = 0 then
           Normal (llr_emit (Db_set STATE_DB (llr_stats_key E interface) (stats_fvs st))
                     (s\<lparr>m_llr_stats := um_assign interface st (m_llr_stats s)\<rparr>))
         else if 2 ^ 64 \<le> retry_latency st \<or> 2 ^ 32 \<le> success_rate st then
           Undefined Float_conversion
         else
           (let st' = st\<lparr>latency_improvement_ns := word_of_int \<lfloor>retry_latency st\<rfloor>\<rparr>
            in Normal (llr_emit
                 (Db_set STATE_DB (llr_stats_key E interface)
                   (stats_fvs st' @ [(''success_rate_percent'',
                      to_string (word_of_int \<lfloor>success_rate st'\<rfloor> :: 32 word))]))
                 (s\<lparr>m_llr_stats := um_assign interface st' (m_llr_stats s)\<rparr>))))"

definition updateLLRStatistics ::
  "llr_env \<Rightarrow> (string \<Rightarrow> 64 word \<times> 64 word) \<Rightarrow> llr_state \<Rightarrow> llr_state outcome" where
  "updateLLRStatistics E samples s =
     range_for m_llr_interfaces
       (\<lambda>i s. case um_find (m_llr_interfaces s) i of
                None \<Rightarrow> Normal s
              | Some config \<Rightarrow>
                  if i_enabled config \<and> i_stats_enable config
                  then updateInterfaceLLRStats E (samples i) i s else Normal s) s"

definition llr_doPeriodicTask ::
  "llr_env \<Rightarrow> (string \<Rightarrow> 64 word \<times> 64 word) \<Rightarrow> int \<Rightarrow> llr_state \<Rightarrow> llr_state outcome" where
  "llr_doPeriodicTask E samples now s =
     (if 5 \<le> now - llr_last_stats_update s
      then out_bind (updateLLRStatistics E samples s)
             (\<lambda>s'. Normal (s'\<lparr>llr_last_stats_update := now\<rparr>))
      else Normal s)"

section \<open>Valid configurations\<close>

definition valid_window :: "32 word \<Rightarrow> bool" where
  "valid_window w \<longleftrightarrow> (\<exists>k \<in> {4..10}. unat w = 2 ^ k)"

lemma window_exponent:
  assumes "16 \<le> (w :: 32 word)" and "w \<le> 1024" and "unat w = 2 ^ k"
  shows "k \<in> {4..10}"
proof -
  have "2 ^ 4 \<le> (2::nat) ^ k" and "(2::nat) ^ k \<le> 2 ^ 10"
    using assms by (simp_all add: word_le_nat_alt)
  then show ?thesis
    by (simp only: power_le_imp_le_exp atLeastAtMost_iff) (metis one_less_numeral_iff power_le_imp_le_exp semiring_norm(76))
qed

lemma check_window_size_iff: "check_window_size w = (if valid_window w then w else 256)"
proof (cases "valid_window w")
  case True
  then obtain k where k: "k \<in> {4..10}" "unat w = 2 ^ k"
    by (auto simp: valid_window_def)
  then have "(2::nat) ^ 4 \<le> unat w" and "unat w \<le> 2 ^ 10"
    using power_increasing [of 4 k "2::nat"] power_increasing [of k 10 "2::nat"] by auto
  then have range: "16 \<le> w" "w \<le> 1024" and "w \<noteq> 0"
    by (auto simp: word_le_nat_alt)
  moreover have "w AND (w - 1) = 0"
    using k(2) \<open>w \<noteq> 0\<close> by (auto simp: word_and_pred_zero_iff)
  ultimately show ?thesis
    using True by (auto simp: check_window_size_def)
next
  case False
  show ?thesis
  proof (cases "w = 0 \<or> w AND (w - 1) \<noteq> 0")
    case True
    with False show ?thesis by (auto simp: check_window_size_def)
  next
    case power: False
    then obtain k where "unat w = 2 ^ k"
      by (auto simp: word_and_pred_zero_iff)
    with False have "\<not> (16 \<le> w \<and> w \<le> 1024)"
      using window_exponent by (auto simp: valid_window_def)
    with power False show ?thesis
      by (auto simp: check_window_size_def not_le)
  qed
qed

lemma valid_window_256 [simp]: "valid_window 256"
  unfolding valid_window_def by (rule bexI [of _ 8]) auto

lemma valid_window_check: "valid_window (check_window_size w)"
  by (simp add: check_window_size_iff)

definition valid_retries :: "32 word \<Rightarrow> bool" where
  "valid_retries w \<longleftrightarrow> 1 \<le> w \<and> w \<le> 10"

definition valid_timeout :: "32 word \<Rightarrow> bool" where
  "valid_timeout w \<longleftrightarrow> 1 \<le> w \<and> w \<le> 100"

lemma valid_retries_check: "valid_retries (check_max_retries w)"
  by (simp add: valid_retries_def check_max_retries_def word_le_nat_alt word_less_nat_alt)

lemma valid_timeout_check: "valid_timeout (check_timeout_ms w)"
  by (simp add: valid_timeout_def check_timeout_ms_def word_le_nat_alt word_less_nat_alt)

section \<open>The manager's invariant\<close>

definition llr_global_ok :: "LLRConfig \<Rightarrow> bool" where
  "llr_global_ok c \<longleftrightarrow>
     valid_retries (g_max_retries c) \<and> valid_timeout (g_timeout_ms c) \<and>
     valid_window (g_window_size c)"

definition llr_interface_ok :: "LLRInterfaceConfig \<Rightarrow> bool" where
  "llr_interface_ok c \<longleftrightarrow>
     i_enabled c \<and> i_stats_enable c \<and> i_buffer_size c = 1024 \<and>
     valid_retries (i_max_retries c) \<and> valid_timeout (i_timeout_ms c)"

text \<open>
  The global configuration is in range; only enabled interfaces are registered, with
  configurations in range; an interface has statistics exactly when it is registered; no
  SAI object is ever recorded.
\<close>

definition llr_inv :: "llr_state \<Rightarrow> bool" where
  "llr_inv s \<longleftrightarrow>
     llr_global_ok (m_global_llr_config s) \<and>
     um_wf (m_llr_interfaces s) \<and> um_wf (m_llr_stats s) \<and>
     um_all (\<lambda>_. llr_interface_ok) (m_llr_interfaces s) \<and>
     set (um_keys (m_llr_stats s)) = set (um_keys (m_llr_interfaces s)) \<and>
     m_llr_sai_objects s = []"

named_theorems llr_defs \<open>the operations on one interface\<close>

declare llr_emit_def [llr_defs] llr_getPortOid_def [llr_defs] applyLLRToInterface_def [llr_defs]
  enableInterfaceLLR_def [llr_defs] disableInterfaceLLR_def [llr_defs] apply_if_enabled_def [llr_defs]

lemma um_set_keys_assign: "set (um_keys (um_assign k v m)) = insert k (set (um_keys m))"
  by (auto simp: um_keys_assign)

lemma um_set_keys_erase: "set (um_keys (um_erase k m)) = set (um_keys m) - {k}"
  by (auto simp: um_keys_erase)

lemma llr_inv_UELLRManager: "llr_inv UELLRManager"
  by (simp add: llr_inv_def UELLRManager_def llr_global_ok_def valid_retries_def valid_timeout_def)

lemma llr_inv_enableInterface:
  "llr_inv s \<Longrightarrow> llr_interface_ok config \<Longrightarrow> llr_inv (enableInterfaceLLR E i config s)"
  by (auto simp: llr_inv_def llr_defs Let_def um_set_keys_assign intro: wf_intros)

lemma llr_inv_disableInterface: "llr_inv s \<Longrightarrow> llr_inv (disableInterfaceLLR E i s)"
  by (auto simp: llr_inv_def llr_defs Let_def um_set_keys_erase intro: wf_intros)

lemma llr_inv_apply_if_enabled: "llr_inv s \<Longrightarrow> llr_inv (apply_if_enabled E i s)"
  by (auto simp: llr_inv_def llr_defs split: option.splits)

text \<open>The loop of \<open>enableGlobalLLR\<close> only writes to the database.\<close>

interpretation llr_apply: loop_body m_llr_interfaces
  "\<lambda>i s. Normal (apply_if_enabled E i s)" "apply_if_enabled E" for E
  by unfold_locales (auto simp: llr_defs split: option.splits)

lemma enableGlobalLLR_inv:
  assumes "llr_inv s" and "valid_retries r" and "valid_timeout t" and "valid_window w"
  shows "out_all llr_inv (enableGlobalLLR E r t w sel s)"
proof -
  have "llr_inv (llr_emit c (s\<lparr>m_global_llr_config := \<lparr>g_enabled = True, g_max_retries = r,
      g_timeout_ms = t, g_window_size = w, g_selective_repeat = sel\<rparr>\<rparr>))" for c
    using assms by (simp add: llr_inv_def llr_emit_def llr_global_ok_def)
  then show ?thesis
    unfolding enableGlobalLLR_def Let_def
    by (rule llr_apply.loop_invariant) (rule llr_inv_apply_if_enabled)
qed

lemma enableGlobalLLR_returns: "returns (enableGlobalLLR E r t w sel s)"
  by (simp add: enableGlobalLLR_def llr_apply.loop_fold Let_def)

text \<open>
  The loop of \<open>disableGlobalLLR\<close> erases the element it visits: with an interface
  registered the behaviour is undefined, without one the call is harmless.
\<close>

lemma disableGlobalLLR_cases:
  "disableGlobalLLR E s =
     (if m_llr_interfaces s = []
      then Normal (s\<lparr>m_global_llr_config := (m_global_llr_config s)\<lparr>g_enabled := False\<rparr>,
                     m_llr_sai_objects := [],
                     llr_io := llr_io s @ [Db_set APPL_DB (llr_app_key E ''global'')
                                             [(''enabled'', ''false'')]]\<rparr>)
      else Undefined Iterator_invalidated)"
proof (cases "m_llr_interfaces s = []")
  case True
  then show ?thesis
    by (simp add: disableGlobalLLR_def llr_emit_def range_for_empty)
next
  case False
  have "range_for m_llr_interfaces (\<lambda>i s. Normal (disableInterfaceLLR E i s))
          (llr_emit c (s\<lparr>m_global_llr_config := g\<rparr>)) = Undefined Iterator_invalidated" for c g
    using False by (intro range_for_erasing_undefined) (auto simp: llr_defs Let_def um_set_keys_erase)
  with False show ?thesis by (simp add: disableGlobalLLR_def Let_def)
qed

lemma disableGlobalLLR_inv: "llr_inv s \<Longrightarrow> out_all llr_inv (disableGlobalLLR E s)"
  by (simp add: disableGlobalLLR_cases llr_inv_def llr_global_ok_def)

section \<open>Parsing keeps vals in range\<close>

definition locals_ok :: "llr_locals \<Rightarrow> bool" where
  "locals_ok l \<longleftrightarrow>
     valid_retries (l_max_retries l) \<and> valid_timeout (l_timeout_ms l) \<and> valid_window (l_window_size l)"

lemma locals_ok_field: "locals_ok l \<Longrightarrow> locals_ok (llr_field l fv)"
  by (cases fv) (simp add: locals_ok_def valid_retries_check valid_timeout_check
      valid_window_check split: sum.splits)

lemma locals_ok_parse: "locals_ok (parse_llr vals)"
  unfolding parse_llr_def
  by (rule foldl_invariant)
    (simp_all add: locals_ok_field, simp add: locals_ok_def llr_defaults_def valid_retries_def valid_timeout_def)

lemma processLLRConfig_inv: "llr_inv s \<Longrightarrow> out_all llr_inv (processLLRConfig E key op vals s)"
  using locals_ok_parse [of vals]
  by (cases op) (simp_all add: processLLRConfig_def Let_def locals_ok_def enableGlobalLLR_inv
      disableGlobalLLR_inv)

lemma interface_field_limits:
  "foldl interface_field (c, f) vals = (c', f') \<Longrightarrow>
   i_max_retries c' = i_max_retries c \<and> i_timeout_ms c' = i_timeout_ms c \<and>
   i_buffer_size c' = i_buffer_size c \<and> i_stats_enable c' = i_stats_enable c"
proof (induction vals arbitrary: c f)
  case Nil
  then show ?case by simp
next
  case (Cons fv vals)
  then show ?case by (cases fv) (fastforce split: if_splits)
qed

lemma processInterfaceConfig_inv: "llr_inv s \<Longrightarrow> llr_inv (processInterfaceConfig E i op vals s)"
  by (auto simp: processInterfaceConfig_def Let_def llr_inv_disableInterface llr_interface_ok_def
      llr_global_ok_def llr_inv_def [of s]
      dest!: interface_field_limits intro!: llr_inv_enableInterface
      split: operation.splits prod.splits)

lemma llr_handle_inv: "llr_inv s \<Longrightarrow> out_all llr_inv (llr_handle E c s t)"
  by (cases c) (simp_all add: llr_handle_def processLLRConfig_inv processInterfaceConfig_inv
      out_all_try_catch)

interpretation llr_tasks: task_handler "llr_handle E c" llr_inv for E c
  by unfold_locales (rule llr_handle_inv)

section \<open>The counters\<close>

text \<open>The derived counters agree with the sampled ones, wrap-around included.\<close>

definition counters_ok :: "LLRStats \<Rightarrow> bool" where
  "counters_ok st \<longleftrightarrow>
     frames_transmitted st = retry_count st + success_count st \<and>
     frames_retransmitted st = retry_count st \<and> timeout_count st = 0"

lemma counters_ok_zero [simp]: "counters_ok zero_stats"
  by (simp add: counters_ok_def zero_stats_def)

lemma counters_ok_add: "counters_ok st \<Longrightarrow> counters_ok (add_samples r k st)"
  by (simp add: counters_ok_def add_samples_def)

lemma counters_ok_latency [simp]: "counters_ok (st\<lparr>latency_improvement_ns := x\<rparr>) = counters_ok st"
  by (simp add: counters_ok_def)

definition llr_counters_inv :: "llr_state \<Rightarrow> bool" where
  "llr_counters_inv s \<longleftrightarrow> um_all (\<lambda>_. counters_ok) (m_llr_stats s)"

lemma llr_counters_at: "llr_counters_inv s \<Longrightarrow> counters_ok (um_at zero_stats (m_llr_stats s) i)"
  by (auto simp: um_at_def llr_counters_inv_def dest: um_all_find split: option.splits)

text \<open>What an update does to the manager, whether or not a frame was counted.\<close>

lemma updateInterfaceLLRStats_Normal:
  assumes "updateInterfaceLLRStats E sample i s = Normal s'"
  shows "\<exists>x fvs. s' = llr_emit (Db_set STATE_DB (llr_stats_key E i) fvs)
           (s\<lparr>m_llr_stats := um_assign i
               ((add_samples (fst sample) (snd sample) (um_at zero_stats (m_llr_stats s) i))
                 \<lparr>latency_improvement_ns := x\<rparr>) (m_llr_stats s)\<rparr>)"
proof -
  have "st = st\<lparr>latency_improvement_ns := latency_improvement_ns st\<rparr>" for st :: LLRStats
    by simp
  with assms show ?thesis
    unfolding updateInterfaceLLRStats_def Let_def by (metis outcome.distinct(3) outcome.inject(1))
qed

lemma updateInterface_counters:
  "llr_counters_inv s \<Longrightarrow> updateInterfaceLLRStats E x i s = Normal s' \<Longrightarrow> llr_counters_inv s'"
  by (drule updateInterfaceLLRStats_Normal)
    (auto simp: llr_counters_inv_def llr_emit_def
      intro!: um_all_assign counters_ok_add llr_counters_at [unfolded llr_counters_inv_def])

lemma updateInterface_inv:
  "llr_inv s \<Longrightarrow> i \<in> set (um_keys (m_llr_interfaces s)) \<Longrightarrow>
   updateInterfaceLLRStats E x i s = Normal s' \<Longrightarrow> llr_inv s'"
  by (drule updateInterfaceLLRStats_Normal)
    (auto simp: llr_inv_def llr_emit_def um_set_keys_assign intro: wf_intros)

text \<open>An invariant of one update is an invariant of the loop and of the periodic call.\<close>

lemma llr_update_body_Normal:
  assumes "updateLLRStatistics E samples s = Normal s'" and "P s"
    and "\<And>i s s'. P s \<Longrightarrow> i \<in> set (um_keys (m_llr_interfaces s)) \<Longrightarrow>
           updateInterfaceLLRStats E (samples i) i s = Normal s' \<Longrightarrow> P s'"
  shows "P s'"
proof (rule range_for_keys_Normal [where P = P])
  show "range_for_keys m_llr_interfaces
      (\<lambda>i s. case um_find (m_llr_interfaces s) i of None \<Rightarrow> Normal s
         | Some config \<Rightarrow> if i_enabled config \<and> i_stats_enable config
             then updateInterfaceLLRStats E (samples i) i s else Normal s)
      (um_keys (m_llr_interfaces s)) s = Normal s'"
    using assms(1) by (simp add: updateLLRStatistics_def range_for_def)
qed (use assms(2,3) in \<open>auto simp: um_keys_find split: option.splits if_splits\<close>)

lemma periodic_Normal:
  assumes "llr_doPeriodicTask E samples now s = Normal s'" and "P s"
    and "\<And>i s s'. P s \<Longrightarrow> i \<in> set (um_keys (m_llr_interfaces s)) \<Longrightarrow>
           updateInterfaceLLRStats E (samples i) i s = Normal s' \<Longrightarrow> P s'"
    and "\<And>s. P s \<Longrightarrow> P (s\<lparr>llr_last_stats_update := now\<rparr>)"
  shows "P s'"
proof (cases "5 \<le> now - llr_last_stats_update s")
  case True
  with assms(1) obtain s1 where s1: "updateLLRStatistics E samples s = Normal s1"
      and s': "s' = s1\<lparr>llr_last_stats_update := now\<rparr>"
    by (auto simp: llr_doPeriodicTask_def out_bind_Normal_iff)
  have "P s1" by (rule llr_update_body_Normal [where P = P, OF s1 assms(2,3)])
  then show ?thesis unfolding s' by (rule assms(4))
next
  case False
  with assms(1,2) show ?thesis by (simp add: llr_doPeriodicTask_def)
qed

section \<open>Reachable states\<close>

text \<open>A run of the manager: batches of tasks and periodic calls, in any order.\<close>

inductive llr_reachable :: "llr_env \<Rightarrow> llr_state \<Rightarrow> bool" for E where
  start: "llr_reachable E UELLRManager"
| tasks: "llr_reachable E s \<Longrightarrow> llr_doTask E c s ts = (Normal s', rest) \<Longrightarrow> llr_reachable E s'"
| periodic: "llr_reachable E s \<Longrightarrow> llr_doPeriodicTask E samples now s = Normal s' \<Longrightarrow>
    llr_reachable E s'"

text \<open>To prove an invariant of the reachable states, look at one handler call and one update.\<close>

lemma llr_reachable_induct_steps:
  assumes "llr_reachable E s" and "P UELLRManager"
    and handle: "\<And>c s t s'. P s \<Longrightarrow> llr_inv s \<Longrightarrow> llr_handle E c s t = Normal s' \<Longrightarrow> P s'"
    and update: "\<And>x i s s'. P s \<Longrightarrow> updateInterfaceLLRStats E x i s = Normal s' \<Longrightarrow> P s'"
    and stamp: "\<And>now s. P s \<Longrightarrow> P (s\<lparr>llr_last_stats_update := now\<rparr>)"
  shows "P s \<and> llr_inv s"
  using assms(1)
proof (induction rule: llr_reachable.induct)
  case start
  show ?case using assms(2) llr_inv_UELLRManager by simp
next
  case (tasks s c ts s' rest)
  show ?case
  proof (rule drain_Normal_invariant [where P = "\<lambda>s. P s \<and> llr_inv s"])
    show "drain (llr_handle E c) s ts = (Normal s', rest)"
      using tasks.hyps(2) by (simp add: llr_doTask_def)
    show "P s'' \<and> llr_inv s''" if "P s \<and> llr_inv s" "llr_handle E c s t = Normal s''" for s t s''
      using that handle llr_handle_inv [of s E c t] by auto
  qed (rule tasks.IH)
next
  case (periodic s samples now s')
  show ?case
  proof (rule periodic_Normal [OF periodic.hyps(2), where P = "\<lambda>s. P s \<and> llr_inv s"])
    show "P s'' \<and> llr_inv s''"
      if "P s \<and> llr_inv s" "i \<in> set (um_keys (m_llr_interfaces s))"
        "updateInterfaceLLRStats E (samples i) i s = Normal s''" for i s s''
      using that update updateInterface_inv by blast
    show "P (s\<lparr>llr_last_stats_update := now\<rparr>) \<and> llr_inv (s\<lparr>llr_last_stats_update := now\<rparr>)"
      if "P s \<and> llr_inv s" for s
      using that stamp [of s now] by (simp add: llr_inv_def)
  qed (rule periodic.IH)
qed

text \<open>No exception leaves the parser: the handler's \<open>catch\<close> is never reached.\<close>

lemma processLLRConfig_no_throw:
  "try_catch (processLLRConfig E key op vals s) = processLLRConfig E key op vals s"
  by (simp add: processLLRConfig_def enableGlobalLLR_def disableGlobalLLR_cases Let_def
      llr_apply.loop_fold split: operation.split)

text \<open>One handler call is at most one of four operations.\<close>

lemma llr_handle_preserves:
  assumes "P s" and "llr_inv s" and step: "llr_handle E c s t = Normal s'"
    and enable_if: "\<And>i config. llr_interface_ok config \<Longrightarrow> P (enableInterfaceLLR E i config s)"
    and disable_if: "\<And>i. P (disableInterfaceLLR E i s)"
    and enable_gl: "\<And>r u w sel s'. enableGlobalLLR E r u w sel s = Normal s' \<Longrightarrow> P s'"
    and disable_gl: "\<And>s'. disableGlobalLLR E s = Normal s' \<Longrightarrow> P s'"
  shows "P s'"
proof -
  have interface: "P (processInterfaceConfig E i op vals s)" for i op vals
    using assms(1,2) disable_if
    by (auto simp: processInterfaceConfig_def Let_def llr_interface_ok_def
        llr_global_ok_def llr_inv_def dest!: interface_field_limits intro!: enable_if
        split: operation.splits prod.splits)
  have global: "P s''" if "processLLRConfig E key op vals s = Normal s''" for key op vals s''
    using that assms(1) enable_gl disable_gl
    by (auto simp: processLLRConfig_def Let_def split: if_splits operation.splits)
  show ?thesis
    using step interface global assms(1)
    by (cases c) (auto simp: llr_handle_def processLLRConfig_no_throw)
qed

section \<open>Counters of reachable states\<close>

lemma llr_counters_apply [simp]: "llr_counters_inv (applyLLRToInterface E i c s) = llr_counters_inv s"
  by (simp add: llr_defs llr_counters_inv_def)

lemma llr_counters_apply_if [simp]: "llr_counters_inv (apply_if_enabled E i s) = llr_counters_inv s"
  by (auto simp: apply_if_enabled_def split: option.splits)

lemma llr_counters_handle:
  assumes "llr_counters_inv s" and "llr_inv s" and "llr_handle E c s t = Normal s'"
  shows "llr_counters_inv s'"
proof (rule llr_handle_preserves [where P = llr_counters_inv, OF assms])
  show "llr_counters_inv (enableInterfaceLLR E i config s)" for i config
    using assms(1) by (auto simp: llr_defs Let_def llr_counters_inv_def intro!: um_all_assign)
  show "llr_counters_inv (disableInterfaceLLR E i s)" for i
    using assms(1) by (auto simp: llr_defs Let_def llr_counters_inv_def intro!: um_all_erase)
  show "llr_counters_inv s''" if "enableGlobalLLR E r u w sel s = Normal s''" for r u w sel s''
  proof -
    have "out_all llr_counters_inv (enableGlobalLLR E r u w sel s)"
      unfolding enableGlobalLLR_def Let_def using assms(1)
      by (intro llr_apply.loop_invariant) (simp_all add: llr_counters_inv_def llr_emit_def,
          simp add: llr_counters_inv_def [symmetric])
    with that show ?thesis by simp
  qed
  show "llr_counters_inv s''" if "disableGlobalLLR E s = Normal s''" for s''
    using that assms(1) by (auto simp: disableGlobalLLR_cases llr_counters_inv_def split: if_splits)
qed

section \<open>What the manager publishes\<close>

text \<open>
  The specification of the interface entries of \<open>APPL_DB\<close>: while LLR is globally enabled,
  exactly the registered interfaces are published, each with its configuration; while it is
  disabled, none is. (The key of an interface named \<open>global\<close> is that of the global entry.)
\<close>

definition port_oid :: "llr_env \<Rightarrow> string \<Rightarrow> 64 word" where
  "port_oid E i = 0x1000000000000000 OR (string_hash E i AND 0xFFFFFFFFFFFF)"

definition llr_view :: "llr_env \<Rightarrow> llr_state \<Rightarrow> string \<Rightarrow> fvs option" where
  "llr_view E s i =
     (if g_enabled (m_global_llr_config s)
      then map_option (\<lambda>config. interface_fvs config (port_oid E i)) (um_find (m_llr_interfaces s) i)
      else None)"

definition llr_publishes :: "llr_env \<Rightarrow> string \<Rightarrow> llr_state \<Rightarrow> bool" where
  "llr_publishes E i s \<longleftrightarrow> published (llr_io s) APPL_DB (llr_app_key E i) = llr_view E s i"

lemma llr_app_key_eq [simp]: "llr_app_key E i = llr_app_key E j \<longleftrightarrow> i = j"
  by (simp add: llr_app_key_def)

lemma llr_emit_frame [simp]:
  "m_llr_interfaces (llr_emit c s) = m_llr_interfaces s"
  "m_global_llr_config (llr_emit c s) = m_global_llr_config s"
  "m_llr_stats (llr_emit c s) = m_llr_stats s"
  "m_llr_sai_objects (llr_emit c s) = m_llr_sai_objects s"
  by (simp_all add: llr_emit_def)

lemma llr_emit_published [simp]:
  "published (llr_io (llr_emit (Db_set d' k' f) s)) d k =
     (if d' = d \<and> k' = k then Some f else published (llr_io s) d k)"
  "published (llr_io (llr_emit (Db_del d' k') s)) d k =
     (if d' = d \<and> k' = k then None else published (llr_io s) d k)"
  by (simp_all add: llr_emit_def)

lemma apply_published:
  "published (llr_io (applyLLRToInterface E i c s)) APPL_DB (llr_app_key E j) =
     (if i = j then Some (interface_fvs c (port_oid E i))
      else published (llr_io s) APPL_DB (llr_app_key E j))"
  by (simp add: llr_defs port_oid_def)

lemma apply_frame [simp]:
  "m_llr_interfaces (applyLLRToInterface E i c s) = m_llr_interfaces s"
  "m_global_llr_config (applyLLRToInterface E i c s) = m_global_llr_config s"
  by (simp_all add: llr_defs)

lemma apply_if_frame [simp]:
  "m_llr_interfaces (apply_if_enabled E i s) = m_llr_interfaces s"
  "m_global_llr_config (apply_if_enabled E i s) = m_global_llr_config s"
  by (auto simp: apply_if_enabled_def split: option.splits)

lemma apply_fold_frame [simp]:
  "m_llr_interfaces (foldl (\<lambda>s k. apply_if_enabled E k s) s ks) = m_llr_interfaces s"
  "m_global_llr_config (foldl (\<lambda>s k. apply_if_enabled E k s) s ks) = m_global_llr_config s"
  by (induction ks arbitrary: s) auto

lemma apply_fold_published:
  assumes "um_all (\<lambda>_. llr_interface_ok) (m_llr_interfaces s)"
  shows "published (llr_io (foldl (\<lambda>s k. apply_if_enabled E k s) s ks)) APPL_DB (llr_app_key E i) =
     (case um_find (m_llr_interfaces s) i of
        Some c \<Rightarrow> if i \<in> set ks then Some (interface_fvs c (port_oid E i))
                   else published (llr_io s) APPL_DB (llr_app_key E i)
      | None \<Rightarrow> published (llr_io s) APPL_DB (llr_app_key E i))"
  using assms
proof (induction ks arbitrary: s)
  case Nil
  then show ?case by (simp split: option.splits)
next
  case (Cons k ks)
  have "llr_interface_ok c" if "um_find (m_llr_interfaces s) k = Some c" for c
    using um_all_find [OF Cons.prems that] .
  with Cons show ?case
    by (auto simp: apply_if_enabled_def apply_published llr_interface_ok_def split: option.splits)
qed

lemma llr_publishes_enableGlobal:
  assumes "llr_publishes E i s" and "llr_inv s" and "i \<noteq> ''global''"
    and "enableGlobalLLR E r u w sel s = Normal s'"
  shows "llr_publishes E i s'"
proof -
  define c where "c = \<lparr>g_enabled = True, g_max_retries = r, g_timeout_ms = u,
    g_window_size = w, g_selective_repeat = sel\<rparr>"
  define s1 where "s1 = llr_emit (Db_set APPL_DB (llr_app_key E ''global'') (enabled_fvs c))
    (s\<lparr>m_global_llr_config := c\<rparr>)"
  have s': "s' = foldl (\<lambda>s k. apply_if_enabled E k s) s1 (um_keys (m_llr_interfaces s1))"
    using assms(4) by (simp add: enableGlobalLLR_def Let_def c_def s1_def llr_apply.loop_fold)
  have "published (llr_io s1) APPL_DB (llr_app_key E i) = llr_view E s i"
    using assms(1,3) by (simp add: s1_def llr_emit_def llr_publishes_def)
  moreover have "m_llr_interfaces s1 = m_llr_interfaces s" and "m_global_llr_config s1 = c"
    by (simp_all add: s1_def llr_emit_def)
  moreover have "um_all (\<lambda>_. llr_interface_ok) (m_llr_interfaces s1)"
    using assms(2) by (simp add: s1_def llr_emit_def llr_inv_def)
  ultimately show ?thesis
    by (auto simp: llr_publishes_def s' apply_fold_published llr_view_def c_def um_keys_find
        split: option.splits)
qed

lemma llr_publishes_handle:
  assumes "llr_publishes E i s" and "llr_inv s" and "llr_handle E c s t = Normal s'"
    and "i \<noteq> ''global''"
  shows "llr_publishes E i s'"
proof (rule llr_handle_preserves [where P = "llr_publishes E i", OF assms(1-3)])
  show "llr_publishes E i (enableInterfaceLLR E j config s)" for j config
    using assms(1) by (auto simp: enableInterfaceLLR_def Let_def llr_publishes_def llr_view_def
        apply_published um_find_assign)
  show "llr_publishes E i (disableInterfaceLLR E j s)" for j
    using assms(1) by (auto simp: disableInterfaceLLR_def Let_def llr_publishes_def
        llr_view_def um_find_erase)
  show "llr_publishes E i s''" if "disableGlobalLLR E s = Normal s''" for s''
    using that assms(1,4) by (auto simp: disableGlobalLLR_cases llr_publishes_def llr_view_def
        split: if_splits)
qed (use llr_publishes_enableGlobal assms in blast)

lemma llr_publishes_update:
  "llr_publishes E i s \<Longrightarrow> updateInterfaceLLRStats E' x j s = Normal s' \<Longrightarrow> llr_publishes E i s'"
  by (drule updateInterfaceLLRStats_Normal)
    (auto simp: llr_publishes_def llr_view_def llr_emit_def)

section \<open>Derived rates\<close>

text \<open>The ranges of the two distributions, and what \<open>n\<close> samples add up to.\<close>

definition sample_ok :: "64 word \<times> 64 word \<Rightarrow> bool" where
  "sample_ok x \<longleftrightarrow> fst x \<le> 10 \<and> 90 \<le> snd x \<and> snd x \<le> 100"

definition rates_ok :: "nat \<Rightarrow> LLRStats \<Rightarrow> bool" where
  "rates_ok n st \<longleftrightarrow>
     unat (retry_count st) \<le> 10 * n \<and>
     90 * n \<le> unat (success_count st) \<and> unat (success_count st) \<le> 100 * n \<and>
     unat (frames_transmitted st) = unat (retry_count st) + unat (success_count st)"

lemma rates_ok_zero: "rates_ok 0 zero_stats"
  by (simp add: rates_ok_def zero_stats_def)

lemma rates_ok_add:
  assumes "rates_ok n st" and "sample_ok x" and "n < 2 ^ 45"
  shows "rates_ok (Suc n) (add_samples (fst x) (snd x) st)"
proof -
  have x: "unat (fst x) \<le> 10" "90 \<le> unat (snd x)" "unat (snd x) \<le> 100"
    using assms(2) by (simp_all add: sample_ok_def word_le_nat_alt)
  have "unat (retry_count st + fst x) = unat (retry_count st) + unat (fst x)"
    and "unat (success_count st + snd x) = unat (success_count st) + unat (snd x)"
    and "unat (fst x + snd x) = unat (fst x) + unat (snd x)"
    using assms x by (auto simp: rates_ok_def intro!: unat_add_no_wrap)
  moreover have "unat (frames_transmitted st + (fst x + snd x)) =
      unat (frames_transmitted st) + unat (fst x + snd x)"
    by (rule unat_add_no_wrap) (use assms x calculation(3) in \<open>simp add: rates_ok_def\<close>)
  ultimately show ?thesis
    using assms x by (simp add: rates_ok_def add_samples_def)
qed

lemma rnd_nine_tenths: "rnd64 (rnd64 (9 / 10) * 100) = 90"
  and rnd_one_tenth: "rnd64 (rnd64 (1 / 10) * 1000000) = 100000"
  by code_simp+

lemma success_rate_range:
  assumes "rates_ok n st" and "0 < n" and "n \<le> 2 ^ 45"
  shows "90 \<le> success_rate st" and "success_rate st \<le> 100"
proof -
  define k where "k = unat (success_count st)"
  define f where "f = unat (frames_transmitted st)"
  from assms have kf: "k \<le> f" "9 * f \<le> 10 * k" "0 < f" "f \<le> 2 ^ 53"
    by (auto simp: rates_ok_def k_def f_def)
  then have ratio: "double_ratio k f = rnd64 (of_nat k / of_nat f)"
    by (simp add: double_ratio_def double.ratio_small)
  have "9 * rat_of_nat f \<le> 10 * rat_of_nat k"
    using kf(2) by (metis of_nat_le_iff of_nat_mult of_nat_numeral)
  then have "9 / 10 \<le> rat_of_nat k / rat_of_nat f"
    using kf(3) by (simp add: field_simps)
  then have "rnd64 (rnd64 (9 / 10) * 100) \<le> success_rate st"
    unfolding success_rate_def double_mult_def k_def [symmetric] f_def [symmetric] ratio
    by (intro rnd64_mono mult_right_mono) simp_all
  then show "90 \<le> success_rate st" by (simp add: rnd_nine_tenths)
  have "double_ratio k f \<le> 1"
    unfolding double_ratio_def by (rule double.ratio_bounds [OF kf(1,3)])
  then have "double_ratio k f * 100 \<le> of_int 100" by simp
  then have "rnd64 (double_ratio k f * 100) \<le> rnd64 (of_int 100)" by (rule rnd64_mono)
  then show "success_rate st \<le> 100"
    by (simp add: success_rate_def double_mult_def k_def f_def double.rnd_small [of 100, simplified])
qed

lemma retry_latency_range:
  assumes "rates_ok n st" and "0 < n" and "n \<le> 2 ^ 45"
  shows "0 \<le> retry_latency st" and "retry_latency st \<le> 100000"
proof -
  define k where "k = unat (retry_count st)"
  define f where "f = unat (frames_transmitted st)"
  from assms have kf: "k \<le> f" "10 * k \<le> f" "0 < f" "f \<le> 2 ^ 53"
    by (auto simp: rates_ok_def k_def f_def)
  then have ratio: "double_ratio k f = rnd64 (of_nat k / of_nat f)"
    by (simp add: double_ratio_def double.ratio_small)
  have "10 * rat_of_nat k \<le> rat_of_nat f"
    using kf(2) by (metis of_nat_le_iff of_nat_mult of_nat_numeral)
  then have "rat_of_nat k / rat_of_nat f \<le> 1 / 10"
    using kf(3) by (simp add: field_simps)
  then have "retry_latency st \<le> rnd64 (rnd64 (1 / 10) * 1000000)"
    unfolding retry_latency_def double_mult_def k_def [symmetric] f_def [symmetric] ratio
    by (intro rnd64_mono mult_right_mono) simp_all
  then show "retry_latency st \<le> 100000" by (simp add: rnd_one_tenth)
  show "0 \<le> retry_latency st"
    by (simp add: retry_latency_def double_mult_def rnd64_nonneg)
qed

text \<open>A sequence of updates of one interface.\<close>

fun llr_updates ::
  "llr_env \<Rightarrow> string \<Rightarrow> (64 word \<times> 64 word) list \<Rightarrow> llr_state \<Rightarrow> llr_state outcome" where
  "llr_updates E i [] s = Normal s"
| "llr_updates E i (x # xs) s = out_bind (updateInterfaceLLRStats E x i s) (llr_updates E i xs)"

definition rates_published :: "llr_env \<Rightarrow> string \<Rightarrow> llr_state \<Rightarrow> bool" where
  "rates_published E i s \<longleftrightarrow>
     latency_improvement_ns (um_at zero_stats (m_llr_stats s) i) \<le> 100000 \<and>
     (\<exists>p \<in> {90..100 :: 32 word}.
        published (llr_io s) STATE_DB (llr_stats_key E i) =
          Some (stats_fvs (um_at zero_stats (m_llr_stats s) i)
                @ [(''success_rate_percent'', to_string p)]))"

lemma rates_ok_latency [simp]: "rates_ok n (st\<lparr>latency_improvement_ns := x\<rparr>) = rates_ok n st"
  and success_rate_latency [simp]: "success_rate (st\<lparr>latency_improvement_ns := x\<rparr>) = success_rate st"
  by (simp_all add: rates_ok_def success_rate_def)

lemma updateInterface_rates:
  assumes "rates_ok n (um_at zero_stats (m_llr_stats s) i)" and "sample_ok x" and "n < 2 ^ 45"
  shows "\<exists>s'. updateInterfaceLLRStats E x i s = Normal s' \<and> rates_published E i s' \<and>
    rates_ok (Suc n) (um_at zero_stats (m_llr_stats s') i)"
proof -
  define st where "st = add_samples (fst x) (snd x) (um_at zero_stats (m_llr_stats s) i)"
  have st: "rates_ok (Suc n) st"
    unfolding st_def by (rule rates_ok_add [OF assms])
  have n: "0 < Suc n" "Suc n \<le> 2 ^ 45" using assms(3) by auto
  note s = success_rate_range [OF st n] and r = retry_latency_range [OF st n]
  have frames: "frames_transmitted st \<noteq> 0"
    using st by (auto simp: rates_ok_def)
  define p where "p = (word_of_int \<lfloor>success_rate st\<rfloor> :: 32 word)"
  have "90 \<le> \<lfloor>success_rate st\<rfloor>" and "\<lfloor>success_rate st\<rfloor> \<le> 100"
    using s by linarith+
  then have p: "p \<in> {90..100}"
    by (simp add: p_def word_le_def take_bit_int_eq_self unsigned_of_int)
  have "0 \<le> \<lfloor>retry_latency st\<rfloor>" and "\<lfloor>retry_latency st\<rfloor> \<le> 100000"
    using r by linarith+
  then have l: "(word_of_int \<lfloor>retry_latency st\<rfloor> :: 64 word) \<le> 100000"
    by (simp add: word_le_def take_bit_int_eq_self unsigned_of_int)
  show ?thesis
    using frames s r l p st
    by (auto simp: updateInterfaceLLRStats_def Let_def st_def [symmetric] rates_published_def
        um_at_assign p_def)
qed

text \<open>The periodic call is a five-second job.\<close>

lemma updateLLRStatistics_stamp:
  assumes "updateLLRStatistics E samples s = Normal s'"
  shows "llr_last_stats_update s' = llr_last_stats_update s"
  by (rule llr_update_body_Normal [where P = "\<lambda>s'. llr_last_stats_update s' = llr_last_stats_update s",
        OF assms])
    (auto dest!: updateInterfaceLLRStats_Normal simp: llr_emit_def)

interpretation llr_timer: periodic_job "llr_doPeriodicTask E samples" llr_last_stats_update 5 horizon
  for E samples horizon
  by unfold_locales (auto simp: llr_doPeriodicTask_def out_bind_Normal_iff split: if_splits)

lemma llr_publishes_stamp: "llr_publishes E i s \<Longrightarrow> llr_publishes E i (s\<lparr>llr_last_stats_update := t\<rparr>)"
  and llr_counters_stamp: "llr_counters_inv s \<Longrightarrow> llr_counters_inv (s\<lparr>llr_last_stats_update := t\<rparr>)"
  by (simp_all add: llr_publishes_def llr_view_def llr_counters_inv_def)

section \<open>Properties\<close>

text \<open>
  Property C10: in every state the manager reaches, whatever tasks and periodic calls led
  there, the global configuration is in range (1 to 10 retries, 1 to 100 ms, a window that
  is a power of two between 16 and 1024), only enabled interfaces with configurations in
  range are registered, and an interface has statistics exactly when it is registered.
\<close>

theorem llr_reachable_inv: "llr_reachable E s \<Longrightarrow> llr_inv s"
  by (drule llr_reachable_induct_steps [where P = "\<lambda>_. True"]) simp_all

text \<open>A run used by the witnesses: LLR enabled globally, then on one interface, then a tick.\<close>

definition llr_ex_env :: llr_env where
  "llr_ex_env =
     \<lparr>APP_UE_LLR_GLOBAL_TABLE_NAME = ''UE_LLR_GLOBAL'',
      STATE_UE_LLR_STATS_TABLE_NAME = ''UE_LLR_STATS'', string_hash = (\<lambda>_. 5)\<rparr>"

definition llr_ex_config :: "task list" where
  "llr_ex_config =
     [\<lparr>kfvKey = ''global'', kfvOp = SET_COMMAND,
       kfvFieldsValues = [(''llr_enable'', ''true''), (''llr_max_retries'', ''7''),
                          (''llr_window_size'', ''100'')]\<rparr>]"

definition llr_ex_interface :: "task list" where
  "llr_ex_interface =
     [\<lparr>kfvKey = ''Ethernet0'', kfvOp = SET_COMMAND, kfvFieldsValues = [(''llr_enable'', ''true'')]\<rparr>]"


definition llr_ex1 :: llr_state where
  "llr_ex1 = UELLRManager
     \<lparr>m_global_llr_config :=
        \<lparr>g_enabled = True, g_max_retries = 7, g_timeout_ms = 5, g_window_size = 256,
         g_selective_repeat = True\<rparr>,
      llr_io := [Db_set APPL_DB ''UE_LLR_GLOBAL:global''
        [(''enabled'', ''true''), (''max_retries'', ''7''), (''timeout_ms'', ''5''),
         (''window_size'', ''256''), (''selective_repeat'', ''true'')]]\<rparr>"

definition llr_ex2 :: llr_state where
  "llr_ex2 = enableInterfaceLLR llr_ex_env ''Ethernet0''
     \<lparr>i_enabled = True, i_max_retries = 7, i_timeout_ms = 5, i_buffer_size = 1024, i_stats_enable = True\<rparr> llr_ex1"

lemmas llr_eval = llr_doTask_def llr_handle_def processLLRConfig_def processInterfaceConfig_def
  parse_llr_def llr_defaults_def check_max_retries_def check_timeout_ms_def check_window_size_def
  enableGlobalLLR_def enabled_fvs_def bool_text_def llr_app_key_def llr_stats_key_def UELLRManager_def
  llr_emit_def

lemma llr_ex1_run: "llr_doTask llr_ex_env Config_consumer UELLRManager llr_ex_config = (Normal llr_ex1, [])"
  by (simp add: llr_eval container_eval text_eval llr_ex_env_def llr_ex_config_def llr_ex1_def)

lemma llr_ex2_run: "llr_doTask llr_ex_env Interface_consumer llr_ex1 llr_ex_interface = (Normal llr_ex2, [])"
  by (simp add: llr_doTask_def llr_handle_def processInterfaceConfig_def llr_ex_interface_def llr_ex2_def llr_ex1_def)


lemma llr_ex2_reachable: "llr_reachable llr_ex_env llr_ex2"
  by (rule llr_reachable.tasks [OF _ llr_ex2_run], rule llr_reachable.tasks [OF _ llr_ex1_run],
      rule llr_reachable.start)

lemma llr_ex2_fields:
  "m_llr_interfaces llr_ex2 = [(''Ethernet0'',
     \<lparr>i_enabled = True, i_max_retries = 7, i_timeout_ms = 5, i_buffer_size = 1024, i_stats_enable = True\<rparr>)]"
  "m_llr_stats llr_ex2 = [(''Ethernet0'', zero_stats)]"
  "llr_last_stats_update llr_ex2 = 0" "g_enabled (m_global_llr_config llr_ex2)"
  by (simp_all add: llr_ex2_def llr_ex1_def enableInterfaceLLR_def Let_def um_assign_def
      applyLLRToInterface_def llr_getPortOid_def llr_emit_def UELLRManager_def)

theorem llr_reachable_inv_witness:
  "llr_reachable llr_ex_env llr_ex2 \<and> llr_inv llr_ex2 \<and> um_keys (m_llr_interfaces llr_ex2) = [''Ethernet0'']"
  using llr_reachable_inv [OF llr_ex2_reachable] llr_ex2_reachable
  by (simp add: llr_ex2_fields um_keys_def)

text \<open>
  Property C6: in every reachable state, the interface entries the manager has left in
  \<open>APPL_DB\<close> are exactly what the state says: while LLR is globally enabled, one entry per
  registered interface, holding its current configuration and port OID; while it is
  disabled, none. This is the manager's abstract specification, refined by every operation.
\<close>

theorem llr_publication:
  assumes "llr_reachable E s" and "i \<noteq> ''global''"
  shows "published (llr_io s) APPL_DB (llr_app_key E i) = llr_view E s i"
proof -
  have "llr_publishes E i s \<and> llr_inv s"
  proof (rule llr_reachable_induct_steps [OF assms(1)])
    show "llr_publishes E i UELLRManager"
      by (simp add: llr_publishes_def llr_view_def UELLRManager_def)
  qed (blast intro: llr_publishes_handle [OF _ _ _ assms(2)] llr_publishes_update
      llr_publishes_stamp)+
  then show ?thesis by (simp add: llr_publishes_def)
qed

theorem llr_publication_witness:
  "published (llr_io llr_ex2) APPL_DB (llr_app_key llr_ex_env ''Ethernet0'') =
     Some [(''enabled'', ''true''), (''max_retries'', ''7''), (''timeout_ms'', ''5''),
           (''buffer_size'', ''1024''), (''port_oid'', ''1152921504606846981'')]"
  using llr_publication [OF llr_ex2_reachable, of "''Ethernet0''"]
  by (simp add: llr_view_def llr_ex2_fields um_find_def interface_fvs_def port_oid_def
      llr_ex_env_def text_eval)

text \<open>
  In every reachable state and for every interface, the transmitted-frame
  counter is the sum of the retry and success counters and the retransmitted-frame counter
  equals the retry counter, as 64-bit values, wrap-around included.
\<close>

theorem llr_counters_consistent:
  assumes "llr_reachable E s" and "um_find (m_llr_stats s) i = Some st"
  shows "frames_transmitted st = retry_count st + success_count st \<and>
    frames_retransmitted st = retry_count st"
proof -
  have "llr_counters_inv s \<and> llr_inv s"
  proof (rule llr_reachable_induct_steps [OF assms(1)])
    show "llr_counters_inv UELLRManager"
      by (simp add: llr_counters_inv_def UELLRManager_def)
  qed (blast intro: llr_counters_handle updateInterface_counters llr_counters_stamp)+
  then show ?thesis
    using um_all_find [OF _ assms(2), of "\<lambda>_. counters_ok"]
    by (simp add: llr_counters_inv_def counters_ok_def)
qed

theorem llr_counters_consistent_witness:
  "\<exists>s st. llr_reachable llr_ex_env s \<and> um_find (m_llr_stats s) ''Ethernet0'' = Some st \<and>
     retry_count st = 3 \<and> success_count st = 95 \<and> frames_transmitted st = 98"
proof -
  let ?u = "updateInterfaceLLRStats llr_ex_env (3, 95) ''Ethernet0'' llr_ex2"
  obtain s where s: "?u = Normal s"
    using updateInterface_rates [of 0 llr_ex2 "''Ethernet0''" "(3, 95)" llr_ex_env] rates_ok_zero
    by (auto simp: llr_ex2_fields um_at_def um_find_def sample_ok_def)
  then have "llr_doPeriodicTask llr_ex_env (\<lambda>_. (3, 95)) 1000 llr_ex2 =
      Normal (s\<lparr>llr_last_stats_update := 1000\<rparr>)"
    using updateInterfaceLLRStats_Normal [OF s]
    by (auto simp: llr_doPeriodicTask_def updateLLRStatistics_def range_for_def llr_ex2_fields
        um_keys_def um_find_def llr_emit_def)
  then have reach: "llr_reachable llr_ex_env (s\<lparr>llr_last_stats_update := 1000\<rparr>)"
    by (rule llr_reachable.periodic [OF llr_ex2_reachable])
  obtain st where st: "um_find (m_llr_stats s) ''Ethernet0'' = Some st" "retry_count st = 3"
      "success_count st = 95"
    using updateInterfaceLLRStats_Normal [OF s]
    by (auto simp: llr_ex2_fields um_simps um_at_def um_find_Cons add_samples_def zero_stats_def)
  then show ?thesis
    using llr_counters_consistent [OF reach, of "''Ethernet0''" st] reach by fastforce
qed

text \<open>
  Property C22: a request to disable LLR globally (a deletion of the \<open>global\<close> entry) is
  handled while no interface is registered; with an interface registered its range-based
  loop erases the element it is visiting, which is undefined behaviour, and the task is
  never taken off the queue.
\<close>

theorem llr_global_delete:
  "llr_doTask E Config_consumer s
     (\<lparr>kfvKey = ''global'', kfvOp = DEL_COMMAND, kfvFieldsValues = vals\<rparr> # ts) =
   (if m_llr_interfaces s = []
    then llr_doTask E Config_consumer
           (s\<lparr>m_global_llr_config := (m_global_llr_config s)\<lparr>g_enabled := False\<rparr>,
              m_llr_sai_objects := [],
              llr_io := llr_io s @ [Db_set APPL_DB (llr_app_key E ''global'')
                                      [(''enabled'', ''false'')]]\<rparr>) ts
    else (Undefined Iterator_invalidated,
          \<lparr>kfvKey = ''global'', kfvOp = DEL_COMMAND, kfvFieldsValues = vals\<rparr> # ts))"
  by (simp add: llr_doTask_def llr_handle_def processLLRConfig_def disableGlobalLLR_cases)

text \<open>
  Property C31: the check on the window size accepts exactly the powers of two from 16 to
  1024 and replaces everything else by 256 (the bit test \<open>w & (w - 1)\<close> followed by the
  range test).
\<close>

theorem check_window_size_exact:
  "check_window_size w = (if \<exists>k. 4 \<le> k \<and> k \<le> 10 \<and> unat w = 2 ^ k then w else 256)"
  using check_window_size_iff [of w] by (auto simp: valid_window_def)

text \<open>The request that spells out a configuration, with numbers as \<open>std::to_string\<close> prints them.\<close>

definition config_request :: "LLRConfig \<Rightarrow> fvs" where
  "config_request c =
     [(''llr_enable'', ''true''),
      (''llr_max_retries'', to_string (g_max_retries c)),
      (''llr_timeout_ms'', to_string (g_timeout_ms c)),
      (''llr_window_size'', to_string (g_window_size c)),
      (''llr_selective_repeat'', bool_text (g_selective_repeat c))]"

lemma stoi_to_string:
  fixes w :: "32 word"
  shows "unat w < 2 ^ 31 \<Longrightarrow> stoi (to_string w) = Inr (int (unat w))"
  by (simp add: to_string_def stoi_nat_digits)

lemma valid_small:
  "valid_retries w \<Longrightarrow> unat w < 2 ^ 31" "valid_timeout w \<Longrightarrow> unat w < 2 ^ 31"
  "valid_window w \<Longrightarrow> unat w < 2 ^ 31"
proof -
  show "valid_retries w \<Longrightarrow> unat w < 2 ^ 31" and "valid_timeout w \<Longrightarrow> unat w < 2 ^ 31"
    by (simp_all add: valid_retries_def valid_timeout_def word_le_nat_alt)
  assume "valid_window w"
  then obtain k where "k \<le> 10" "unat w = 2 ^ k" by (auto simp: valid_window_def)
  then show "unat w < 2 ^ 31"
    using power_strict_increasing [of k 31 "2::nat"] by simp
qed

lemma parse_config_request:
  assumes "llr_global_ok c"
  shows "parse_llr (config_request c) =
    \<lparr>l_enabled = True, l_max_retries = g_max_retries c, l_timeout_ms = g_timeout_ms c,
     l_window_size = g_window_size c, l_selective_repeat = g_selective_repeat c\<rparr>"
proof -
  have "check_max_retries (g_max_retries c) = g_max_retries c"
    and "check_timeout_ms (g_timeout_ms c) = g_timeout_ms c"
    and "check_window_size (g_window_size c) = g_window_size c"
    using assms by (auto simp: llr_global_ok_def valid_retries_def valid_timeout_def
        check_max_retries_def check_timeout_ms_def check_window_size_iff word_le_nat_alt
        word_less_nat_alt)
  then show ?thesis
    using assms valid_small by (simp add: parse_llr_def config_request_def llr_defaults_def
        stoi_to_string llr_global_ok_def bool_text_def)
qed

lemma apply_fold_published_other:
  "i \<notin> set ks \<Longrightarrow>
   published (llr_io (foldl (\<lambda>s k. apply_if_enabled E k s) s ks)) APPL_DB (llr_app_key E i) =
   published (llr_io s) APPL_DB (llr_app_key E i)"
  by (induction ks arbitrary: s) (auto simp: apply_if_enabled_def apply_published split: option.splits)

text \<open>
  Property C23: a global configuration in range that is sent as text (the numbers printed by
  \<open>std::to_string\<close>) is read back unchanged and published: the manager ends up with that
  configuration and the database entry shows the same values.
\<close>

theorem llr_config_roundtrip:
  assumes "llr_global_ok c" and "g_enabled c" and "''global'' \<notin> set (um_keys (m_llr_interfaces s))"
  shows "\<exists>s'. processLLRConfig E ''global'' SET_COMMAND (config_request c) s = Normal s' \<and>
    m_global_llr_config s' = c \<and> m_llr_interfaces s' = m_llr_interfaces s \<and>
    published (llr_io s') APPL_DB (llr_app_key E ''global'') = Some (enabled_fvs c)"
proof -
  have "\<lparr>g_enabled = True, g_max_retries = g_max_retries c, g_timeout_ms = g_timeout_ms c,
      g_window_size = g_window_size c, g_selective_repeat = g_selective_repeat c\<rparr> = c"
    using assms(2) by simp
  then show ?thesis
    using assms(3)
    by (simp add: processLLRConfig_def parse_config_request [OF assms(1)] enableGlobalLLR_def
        llr_apply.loop_fold Let_def apply_fold_published_other)
qed

theorem llr_config_roundtrip_witness:
  "\<exists>s'. processLLRConfig llr_ex_env ''global'' SET_COMMAND
     (config_request \<lparr>g_enabled = True, g_max_retries = 4, g_timeout_ms = 50, g_window_size = 64,
        g_selective_repeat = False\<rparr>) UELLRManager = Normal s' \<and>
     g_timeout_ms (m_global_llr_config s') = 50 \<and> g_window_size (m_global_llr_config s') = 64"
proof -
  have "valid_window 64" unfolding valid_window_def by (rule bexI [of _ 6]) auto
  then have "llr_global_ok \<lparr>g_enabled = True, g_max_retries = 4, g_timeout_ms = 50,
      g_window_size = 64, g_selective_repeat = False\<rparr>"
    by (simp add: llr_global_ok_def valid_retries_def valid_timeout_def)
  from llr_config_roundtrip [OF this, of UELLRManager llr_ex_env] show ?thesis
    by (auto simp: UELLRManager_def)
qed

text \<open>
  Property C32: from zeroed statistics, any sequence of up to \<open>2^45\<close> updates with samples in
  the ranges of the two distributions succeeds (no conversion of a \<open>double\<close> overflows), and
  in IEEE double arithmetic the last published success rate lies between 90 and 100 percent
  and the latency improvement is at most 100000 ns.
\<close>

theorem llr_rates:
  assumes "list_all sample_ok xs" and "xs \<noteq> []" and "length xs \<le> 2 ^ 45"
    and "um_at zero_stats (m_llr_stats s) i = zero_stats"
  shows "\<exists>s'. llr_updates E i xs s = Normal s' \<and> rates_published E i s'"
proof -
  have "\<exists>s'. llr_updates E i ys s = Normal s' \<and>
      rates_ok (n + length ys) (um_at zero_stats (m_llr_stats s') i) \<and>
      (ys \<noteq> [] \<longrightarrow> rates_published E i s')"
    if "rates_ok n (um_at zero_stats (m_llr_stats s) i)" and "list_all sample_ok ys"
      and "n + length ys \<le> 2 ^ 45" for n ys s
    using that
  proof (induction ys arbitrary: n s)
    case Nil
    then show ?case by simp
  next
    case (Cons y ys)
    then obtain s1 where s1: "updateInterfaceLLRStats E y i s = Normal s1"
        "rates_published E i s1" "rates_ok (Suc n) (um_at zero_stats (m_llr_stats s1) i)"
      using updateInterface_rates [of n s i y E] by auto
    show ?case
      using Cons.IH [OF s1(3)] Cons.prems s1(1,2) by (cases ys) auto
  qed
  from this [of 0 s xs] show ?thesis
    using assms rates_ok_zero by auto
qed

theorem llr_rates_witness:
  "\<exists>s'. llr_updates llr_ex_env ''Ethernet0'' [(3, 95), (10, 90), (0, 100)] llr_ex2 = Normal s' \<and>
     rates_published llr_ex_env ''Ethernet0'' s'"
  by (rule llr_rates)
    (simp_all add: sample_ok_def llr_ex2_fields um_at_def um_find_def)

text \<open>
  On a clock that does not run backwards, two statistics updates of the
  periodic task are at least five seconds apart, whatever the state and however often the
  daemon's loop calls it.
\<close>

theorem llr_statistics_spaced:
  assumes "sorted (llr_last_stats_update s # ts)"
  shows "sorted_wrt (\<lambda>a b. a + 5 \<le> b)
    (fire_times (llr_doPeriodicTask E samples) llr_last_stats_update 5 ts s)"
  by (rule llr_timer.fire_times_spaced [OF assms below_horizon])

theorem llr_statistics_spaced_witness:
  "sorted_wrt (\<lambda>a b. a + 5 \<le> b)
     (fire_times (llr_doPeriodicTask llr_ex_env (\<lambda>_. (0, 95))) llr_last_stats_update 5
       [100, 103, 104, 105, 110] UELLRManager) \<and>
   fire_times (llr_doPeriodicTask llr_ex_env (\<lambda>_. (0, 95))) llr_last_stats_update 5
       [100, 103, 104, 105, 110] UELLRManager = [100, 105, 110]"
proof
  show "sorted_wrt (\<lambda>a b. a + 5 \<le> b)
     (fire_times (llr_doPeriodicTask llr_ex_env (\<lambda>_. (0, 95))) llr_last_stats_update 5
       [100, 103, 104, 105, 110] UELLRManager)"
    by (rule llr_statistics_spaced) (simp add: UELLRManager_def)
qed (simp add: llr_doPeriodicTask_def updateLLRStatistics_def range_for_def UELLRManager_def)

text \<open>
  Two interfaces get the same simulated port OID exactly when the low 48 bits
  of their names' hashes agree, and every OID lies in the range from \<open>2^60\<close> of \<open>2^48\<close> values.
\<close>

theorem llr_port_oid:
  "(llr_getPortOid E i = llr_getPortOid E j \<longleftrightarrow>
      take_bit 48 (string_hash E i) = take_bit 48 (string_hash E j)) \<and>
   (\<exists>oid. llr_getPortOid E i = Some oid \<and> drop_bit 48 oid = 0x1000)"
proof -
  have mask: "string_hash E k AND 0xFFFFFFFFFFFF = take_bit 48 (string_hash E k)" for k
    by (simp add: take_bit_eq_mask mask_eq_exp_minus_1)
  have low: "take_bit 48 (0x1000000000000000 OR (take_bit 48 h)) = take_bit 48 (h :: 64 word)" for h
    by (simp add: take_bit_or)
  have high: "drop_bit 48 (0x1000000000000000 OR (take_bit 48 h)) = (0x1000 :: 64 word)" for h :: "64 word"
    by (simp add: drop_bit_or drop_bit_take_bit)
  show ?thesis
    unfolding llr_getPortOid_def mask using low high by (metis option.inject)
qed

end
