(* ===== verification/Pri_Manager.thy ===== *)
theory Pri_Manager
  imports Swss
begin

text \<open>
  \<open>sonic-ue-linkd/src/ue_pri_manager.h\<close> and \<open>ue_pri_manager.cpp\<close>: the Packet Rate
  Improvement manager. The constructor leaves the configuration members uninitialised:
  \<open>None\<close> is an indeterminate value, and reading it is undefined. Two members the code
  calls, \<open>disableGlobalPRI\<close> and \<open>processInterfaceConfig\<close>, are declared in the header and
  defined nowhere in the repository: they are parameters of the model.
\<close>

section \<open>State\<close>

definition CFG_UE_PRI_TABLE_NAME :: string where
  "CFG_UE_PRI_TABLE_NAME = ''UE_PRI''"

definition APP_UE_PRI_GLOBAL_TABLE_NAME :: string where
  "APP_UE_PRI_GLOBAL_TABLE_NAME = ''UE_PRI_GLOBAL''"

definition STATE_UE_PRI_STATS_TABLE_NAME :: string where
  "STATE_UE_PRI_STATS_TABLE_NAME = ''UE_PRI_STATS''"

record PRIConfig =
  pg_enabled :: "bool option"
  pg_ethernet_compression :: "bool option"
  pg_ip_compression :: "bool option"
  pg_compression_ratio :: "32 word option"
  pg_min_packet_size :: "32 word option"
  pg_max_packet_size :: "32 word option"

record PRIInterfaceConfig =
  pi_enabled :: bool
  pi_ethernet_compression :: bool
  pi_ip_compression :: bool
  pi_compression_ratio :: "32 word"
  pi_stats_enable :: bool
  pi_compression_threshold :: "32 word"

record PRIStats =
  packets_compressed :: "64 word"
  packets_uncompressed :: "64 word"
  bytes_saved :: "64 word"
  compression_ratio_actual :: "64 word"
  header_size_reduction :: "64 word"
  ethernet_headers_compressed :: "64 word"
  ip_headers_compressed :: "64 word"
  compression_failures :: "64 word"
  bandwidth_improvement_bps :: "64 word"

record pri_state =
  m_global_pri_config :: PRIConfig
  m_pri_interfaces :: "(string, PRIInterfaceConfig) umap"
  m_pri_stats :: "(string, PRIStats) umap"
  m_pri_sai_objects :: "(string, 64 word) umap"
  m_total_bytes_saved :: "64 word option"
  m_total_packets_processed :: "64 word option"
  m_last_calculation_time :: "int option"
  pri_last_stats_update :: int
  pri_io :: "db_cmd list"

text \<open>The two members without a definition.\<close>

record pri_env =
  disableGlobalPRI :: "pri_state \<Rightarrow> pri_state outcome"
  pri_processInterfaceConfig :: "string \<Rightarrow> operation \<Rightarrow> fvs \<Rightarrow> pri_state \<Rightarrow> pri_state outcome"

definition UEPRIManager :: pri_state where
  "UEPRIManager =
     \<lparr>m_global_pri_config =
        \<lparr>pg_enabled = None, pg_ethernet_compression = None, pg_ip_compression = None,
         pg_compression_ratio = None, pg_min_packet_size = None, pg_max_packet_size = None\<rparr>,
      m_pri_interfaces = [], m_pri_stats = [], m_pri_sai_objects = [],
      m_total_bytes_saved = None, m_total_packets_processed = None,
      m_last_calculation_time = None, pri_last_stats_update = 0, pri_io = []\<rparr>"

definition zero_pri_stats :: PRIStats where
  "zero_pri_stats =
     \<lparr>packets_compressed = 0, packets_uncompressed = 0, bytes_saved = 0,
      compression_ratio_actual = 0, header_size_reduction = 0,
      ethernet_headers_compressed = 0, ip_headers_compressed = 0, compression_failures = 0,
      bandwidth_improvement_bps = 0\<rparr>"

section \<open>Configuration\<close>

record pri_locals =
  pri_enabled :: bool
  eth_compression :: bool
  ip_compression :: bool
  compression_ratio :: "32 word"

definition pri_defaults :: pri_locals where
  "pri_defaults =
     \<lparr>pri_enabled = False, eth_compression = False, ip_compression = False,
      compression_ratio = 25\<rparr>"

text \<open>The loop over the fields; \<open>std::stoi\<close> is not guarded and may leave it by an exception.\<close>

fun pri_fields :: "pri_locals \<Rightarrow> fvs \<Rightarrow> exn + pri_locals" where
  "pri_fields l [] = Inr l"
| "pri_fields l ((field, value) # fs) =
     (if field = ''pri_enable'' then pri_fields (l\<lparr>pri_enabled := (value = ''true'')\<rparr>) fs
      else if field = ''ethernet_compression'' then
        pri_fields (l\<lparr>eth_compression := (value = ''true'')\<rparr>) fs
      else if field = ''ip_compression'' then
        pri_fields (l\<lparr>ip_compression := (value = ''true'')\<rparr>) fs
      else if field = ''compression_ratio'' then
        (case stoi value of
           Inl e \<Rightarrow> Inl e
         | Inr v \<Rightarrow> pri_fields (l\<lparr>compression_ratio := word_of_int v\<rparr>) fs)
      else pri_fields l fs)"

definition pri_text :: "bool \<Rightarrow> string" where
  "pri_text b = (if b then ''true'' else ''false'')"

definition enableGlobalPRI :: "bool \<Rightarrow> bool \<Rightarrow> 32 word \<Rightarrow> pri_state \<Rightarrow> pri_state" where
  "enableGlobalPRI eth ip ratio s =
     s\<lparr>m_global_pri_config := (m_global_pri_config s)
         \<lparr>pg_enabled := Some True, pg_ethernet_compression := Some eth,
          pg_ip_compression := Some ip, pg_compression_ratio := Some ratio\<rparr>,
       pri_io := pri_io s @
         [Db_set APPL_DB (APP_UE_PRI_GLOBAL_TABLE_NAME @ '':global'')
            [(''enabled'', ''true''),
             (''ethernet_compression'', pri_text eth),
             (''ip_compression'', pri_text ip),
             (''compression_ratio'', to_string ratio)]]\<rparr>"

definition processPRIConfig ::
  "pri_env \<Rightarrow> string \<Rightarrow> operation \<Rightarrow> fvs \<Rightarrow> pri_state \<Rightarrow> pri_state outcome" where
  "processPRIConfig E key op vals s =
     (if key \<noteq> ''global'' then Normal s
      else if op = SET_COMMAND then
        (case pri_fields pri_defaults vals of
           Inl e \<Rightarrow> Throws e s
         | Inr l \<Rightarrow>
             if pri_enabled l
             then Normal (enableGlobalPRI (eth_compression l) (ip_compression l)
                            (compression_ratio l) s)
             else disableGlobalPRI E s)
      else Normal s)"

definition pri_handle :: "pri_env \<Rightarrow> consumer \<Rightarrow> pri_state \<Rightarrow> task \<Rightarrow> pri_state outcome" where
  "pri_handle E c s t =
     (case c of
        Config_consumer \<Rightarrow> processPRIConfig E (kfvKey t) (kfvOp t) (kfvFieldsValues t) s
      | Interface_consumer \<Rightarrow>
          pri_processInterfaceConfig E (kfvKey t) (kfvOp t) (kfvFieldsValues t) s
      | _ \<Rightarrow> Normal s)"

text \<open>No \<open>try\<close> block here: an exception leaves \<open>doTask\<close> with the task still queued.\<close>

definition pri_doTask ::
  "pri_env \<Rightarrow> consumer \<Rightarrow> pri_state \<Rightarrow> task list \<Rightarrow> pri_state outcome \<times> task list" where
  "pri_doTask E c s ts = drain (pri_handle E c) s ts"

section \<open>Statistics\<close>

text \<open>The new statistics of an interface for the configured ratio; \<open>None\<close> divides by zero.\<close>

definition pri_new_stats :: "32 word \<Rightarrow> PRIStats \<Rightarrow> PRIStats option" where
  "pri_new_stats ratio st =
     (let pc = packets_compressed st + 1000;
          pu = packets_uncompressed st + 50;
          saved = bytes_saved st + pc * ucast (ratio * 42 div 100)
      in if pc * 42 = 0 then None
         else Some (st\<lparr>packets_compressed := pc, packets_uncompressed := pu, bytes_saved := saved,
                       compression_ratio_actual := (saved * 100) div (pc * 42)\<rparr>))"

definition pri_stats_key :: "string \<Rightarrow> string" where
  "pri_stats_key i = STATE_UE_PRI_STATS_TABLE_NAME @ CHR '':'' # i"

definition pri_stats_fvs :: "PRIStats \<Rightarrow> fvs" where
  "pri_stats_fvs st =
     [(''packets_compressed'', to_string (packets_compressed st)),
      (''packets_uncompressed'', to_string (packets_uncompressed st)),
      (''bytes_saved'', to_string (bytes_saved st)),
      (''compression_ratio_actual'', to_string (compression_ratio_actual st))]"

definition updateInterfacePRIStats :: "string \<Rightarrow> pri_state \<Rightarrow> pri_state outcome" where
  "updateInterfacePRIStats i s =
     (case pg_compression_ratio (m_global_pri_config s) of
        None \<Rightarrow> Undefined Indeterminate_read
      | Some ratio \<Rightarrow>
          (case pri_new_stats ratio (um_at zero_pri_stats (m_pri_stats s) i) of
             None \<Rightarrow> Undefined Division_by_zero
           | Some st \<Rightarrow>
               Normal (s\<lparr>m_pri_stats := um_assign i st (m_pri_stats s),
                         pri_io := pri_io s @
                           [Db_set STATE_DB (pri_stats_key i) (pri_stats_fvs st)]\<rparr>)))"

definition updatePRIStatistics :: "pri_state \<Rightarrow> pri_state outcome" where
  "updatePRIStatistics s =
     range_for m_pri_interfaces
       (\<lambda>i s. case um_find (m_pri_interfaces s) i of
                None \<Rightarrow> Normal s
              | Some config \<Rightarrow>
                  if pi_enabled config then updateInterfacePRIStats i s else Normal s) s"

definition pri_doPeriodicTask :: "int \<Rightarrow> pri_state \<Rightarrow> pri_state outcome" where
  "pri_doPeriodicTask now s =
     (if 5 \<le> now - pri_last_stats_update s
      then out_bind (updatePRIStatistics s) (\<lambda>s'. Normal (s'\<lparr>pri_last_stats_update := now\<rparr>))
      else Normal s)"

section \<open>Parsing\<close>

definition ratio_texts :: "fvs \<Rightarrow> string list" where
  "ratio_texts vals = map snd (filter (\<lambda>fv. fst fv = ''compression_ratio'') vals)"

definition unparsable :: "string \<Rightarrow> bool" where
  "unparsable v \<longleftrightarrow> (case stoi v of Inl _ \<Rightarrow> True | Inr _ \<Rightarrow> False)"

lemma pri_fields_error_iff:
  "(\<exists>e. pri_fields l vals = Inl e) \<longleftrightarrow> list_ex unparsable (ratio_texts vals)"
proof (induction l vals rule: pri_fields.induct)
  case (1 l)
  then show ?case by (simp add: ratio_texts_def)
next
  case (2 l field "value" fs)
  show ?case
  proof (cases "field = ''compression_ratio''")
    case True
    then show ?thesis
      using "2.IH"(4) by (cases "stoi value") (simp_all add: ratio_texts_def unparsable_def)
  next
    case False
    then have "ratio_texts ((field, value) # fs) = ratio_texts fs"
      by (simp add: ratio_texts_def)
    then show ?thesis
      using False "2.IH"(1-3,5) by (simp split: if_split)
  qed
qed

section \<open>Statistics in closed form\<close>

text \<open>\<open>n\<close> updates of one interface.\<close>

fun pri_updates :: "nat \<Rightarrow> string \<Rightarrow> pri_state \<Rightarrow> pri_state outcome" where
  "pri_updates 0 i s = Normal s"
| "pri_updates (Suc n) i s = out_bind (pri_updates n i s) (updateInterfacePRIStats i)"

definition bytes_per_packet :: "32 word \<Rightarrow> nat" where
  "bytes_per_packet ratio = unat (ratio * 42 div 100)"

definition pri_after :: "32 word \<Rightarrow> nat \<Rightarrow> PRIStats \<Rightarrow> bool" where
  "pri_after ratio n st \<longleftrightarrow>
     packets_compressed st = of_nat (1000 * n) \<and>
     packets_uncompressed st = of_nat (50 * n) \<and>
     bytes_saved st = of_nat (500 * bytes_per_packet ratio * (n * (n + 1)))"

lemma pri_after_zero: "pri_after ratio 0 zero_pri_stats"
  by (simp add: pri_after_def zero_pri_stats_def)

lemma packets_nonzero:
  assumes "0 < n" and "n < 2 ^ 60"
  shows "(of_nat (1000 * n) * 42 :: 64 word) \<noteq> 0"
proof
  assume "(of_nat (1000 * n) * 42 :: 64 word) = 0"
  then have "(of_nat (42000 * n) :: 64 word) = 0" by (simp add: mult.commute)
  then have "2 ^ 64 dvd 42000 * n"
    by (simp only: word_of_nat_eq_0_iff) simp
  then have "2 ^ 60 * 16 dvd (2625 * n) * 16" by simp
  then have "2 ^ 60 dvd 2625 * n" by (simp only: dvd_times_right_cancel_iff [of "16::nat"])
  moreover have "coprime (2 ^ 60) (2625 :: nat)"
    by (simp only: coprime_power_left_iff coprime_left_2_iff_odd) simp
  ultimately have "2 ^ 60 dvd n" by (metis coprime_dvd_mult_right_iff)
  with assms show False by (auto dest: dvd_imp_le)
qed

lemma pri_new_stats_after:
  assumes "pri_after ratio n st" and "n < 2 ^ 60 - 1"
  shows "\<exists>st'. pri_new_stats ratio st = Some st' \<and> pri_after ratio (Suc n) st' \<and>
    compression_ratio_actual st' =
      (of_nat (500 * bytes_per_packet ratio * (Suc n * (Suc n + 1))) * 100) div (of_nat (1000 * Suc n) * 42)"
proof -
  have pc: "packets_compressed st + 1000 = of_nat (1000 * Suc n)"
    and pu: "packets_uncompressed st + 50 = of_nat (50 * Suc n)"
    using assms(1) by (simp_all add: pri_after_def)
  have k: "ucast (ratio * 42 div 100) = (of_nat (bytes_per_packet ratio) :: 64 word)"
    by (simp add: bytes_per_packet_def unsigned_of_nat)
  have "500 * bytes_per_packet ratio * (n * (n + 1)) + 1000 * Suc n * bytes_per_packet ratio =
      500 * bytes_per_packet ratio * (Suc n * (Suc n + 1))"
    by (simp add: algebra_simps)
  then have saved: "bytes_saved st + of_nat (1000 * Suc n) * of_nat (bytes_per_packet ratio) =
      of_nat (500 * bytes_per_packet ratio * (Suc n * (Suc n + 1)))"
    using assms(1) by (simp only: pri_after_def flip: of_nat_mult of_nat_add)
  have "(of_nat (1000 * Suc n) * 42 :: 64 word) \<noteq> 0"
    using assms(2) by (intro packets_nonzero) auto
  then show ?thesis
    unfolding pri_new_stats_def Let_def pc pu k saved by (simp add: pri_after_def)
qed

lemma updateInterfacePRIStats_after:
  assumes "pg_compression_ratio (m_global_pri_config s) = Some ratio"
    and "pri_after ratio n (um_at zero_pri_stats (m_pri_stats s) i)" and "n < 2 ^ 60 - 1"
  shows "\<exists>s'. updateInterfacePRIStats i s = Normal s' \<and>
    m_global_pri_config s' = m_global_pri_config s \<and>
    pri_after ratio (Suc n) (um_at zero_pri_stats (m_pri_stats s') i) \<and>
    compression_ratio_actual (um_at zero_pri_stats (m_pri_stats s') i) =
      (of_nat (500 * bytes_per_packet ratio * (Suc n * (Suc n + 1))) * 100) div (of_nat (1000 * Suc n) * 42)"
  using pri_new_stats_after [OF assms(2,3)] assms(1)
  by (auto simp: updateInterfacePRIStats_def um_at_assign)

lemma pri_updates_after:
  assumes "pg_compression_ratio (m_global_pri_config s) = Some ratio"
    and "um_at zero_pri_stats (m_pri_stats s) i = zero_pri_stats" and "n < 2 ^ 60"
  shows "\<exists>s'. pri_updates n i s = Normal s' \<and> m_global_pri_config s' = m_global_pri_config s \<and>
    pri_after ratio n (um_at zero_pri_stats (m_pri_stats s') i) \<and>
    (0 < n \<longrightarrow> compression_ratio_actual (um_at zero_pri_stats (m_pri_stats s') i) =
      (of_nat (500 * bytes_per_packet ratio * (n * (n + 1))) * 100) div (of_nat (1000 * n) * 42))"
  using assms(3)
proof (induction n)
  case 0
  then show ?case using assms by (simp add: pri_after_zero)
next
  case (Suc n)
  then obtain s1 where s1: "pri_updates n i s = Normal s1"
      "m_global_pri_config s1 = m_global_pri_config s"
      "pri_after ratio n (um_at zero_pri_stats (m_pri_stats s1) i)"
    by auto
  with updateInterfacePRIStats_after [of s1 ratio n i] assms(1) Suc.prems show ?case
    by (auto simp del: of_nat_Suc of_nat_mult)
qed

section \<open>The periodic call\<close>

lemma updatePRIStatistics_stamp:
  assumes "updatePRIStatistics s = Normal s'"
  shows "pri_last_stats_update s' = pri_last_stats_update s"
proof -
  define body where "body = (\<lambda>i s. case um_find (m_pri_interfaces s) i of
                None \<Rightarrow> Normal s
              | Some config \<Rightarrow>
                  if pi_enabled config then updateInterfacePRIStats i s else Normal s)"
  have "range_for_keys m_pri_interfaces body (um_keys (m_pri_interfaces s)) s = Normal s'"
    using assms by (simp add: updatePRIStatistics_def range_for_def body_def)
  then show ?thesis
  proof (rule range_for_keys_Normal [where P = "\<lambda>s'. pri_last_stats_update s' = pri_last_stats_update s"])
    show "pri_last_stats_update s'' = pri_last_stats_update s"
      if "pri_last_stats_update s' = pri_last_stats_update s" "body i s' = Normal s''" for i s' s''
      using that by (auto simp: body_def updateInterfacePRIStats_def split: option.splits if_splits)
  qed simp
qed

interpretation pri_timer: periodic_job pri_doPeriodicTask pri_last_stats_update 5 horizon for horizon
  by unfold_locales (auto simp: pri_doPeriodicTask_def out_bind_Normal_iff split: if_splits)

section \<open>Properties\<close>

text \<open>
  A \<open>global\<close> update whose compression ratio \<open>std::stoi\<close> cannot read leaves
  \<open>doTask\<close> by the exception: the configuration is unchanged and the task, with everything
  behind it, stays in the queue, so every later attempt fails in the same way.
\<close>

theorem pri_bad_ratio_blocks:
  assumes "kfvKey t = ''global''" and "kfvOp t = SET_COMMAND"
    and "list_ex unparsable (ratio_texts (kfvFieldsValues t))"
  shows "\<exists>e. pri_doTask E Config_consumer s (t # ts) = (Throws e s, t # ts)"
proof -
  obtain e where "pri_fields pri_defaults (kfvFieldsValues t) = Inl e"
    using assms(3) pri_fields_error_iff by blast
  with assms(1,2) show ?thesis
    by (auto simp: pri_doTask_def pri_handle_def processPRIConfig_def)
qed

definition pri_ex_env :: pri_env where
  "pri_ex_env = \<lparr>disableGlobalPRI = Normal, pri_processInterfaceConfig = (\<lambda>_ _ _. Normal)\<rparr>"

theorem pri_bad_ratio_blocks_witness:
  "\<exists>e. pri_doTask pri_ex_env Config_consumer UEPRIManager
     [\<lparr>kfvKey = ''global'', kfvOp = SET_COMMAND,
       kfvFieldsValues = [(''pri_enable'', ''true''), (''compression_ratio'', ''high'')]\<rparr>,
      \<lparr>kfvKey = ''global'', kfvOp = DEL_COMMAND, kfvFieldsValues = []\<rparr>] =
   (Throws e UEPRIManager,
     [\<lparr>kfvKey = ''global'', kfvOp = SET_COMMAND,
       kfvFieldsValues = [(''pri_enable'', ''true''), (''compression_ratio'', ''high'')]\<rparr>,
      \<lparr>kfvKey = ''global'', kfvOp = DEL_COMMAND, kfvFieldsValues = []\<rparr>])"
  by (rule pri_bad_ratio_blocks)
    (simp_all add: ratio_texts_def unparsable_def text_eval)

text \<open>
  A global update that enables PRI stores whatever integer \<open>std::stoi\<close> read as
  the ratio, converted to \<open>uint32_t\<close> without any range check, and publishes it.
\<close>

theorem pri_ratio_unchecked:
  assumes "stoi v = Inr n"
  shows "processPRIConfig E ''global'' SET_COMMAND [(''pri_enable'', ''true''), (''compression_ratio'', v)] s
      = Normal (enableGlobalPRI False False (word_of_int n) s) \<and>
    pg_compression_ratio (m_global_pri_config (enableGlobalPRI False False (word_of_int n) s))
      = Some (word_of_int n)"
  using assms by (simp add: processPRIConfig_def pri_defaults_def enableGlobalPRI_def)

theorem pri_ratio_unchecked_witness:
  "\<exists>s'. processPRIConfig pri_ex_env ''global'' SET_COMMAND
      [(''pri_enable'', ''true''), (''compression_ratio'', ''-1'')] UEPRIManager = Normal s' \<and>
    pg_compression_ratio (m_global_pri_config s') = Some 4294967295"
proof -
  have "stoi ''-1'' = Inr (-1)" by (simp add: text_eval)
  from pri_ratio_unchecked [OF this, of pri_ex_env UEPRIManager] show ?thesis by auto
qed

text \<open>
  Before the first global update that enables PRI, the statistics update reads
  the uninitialised compression ratio; afterwards it never does.
\<close>

theorem pri_indeterminate_ratio:
  "updateInterfacePRIStats i s = Undefined Indeterminate_read \<longleftrightarrow>
   pg_compression_ratio (m_global_pri_config s) = None"
  by (auto simp: updateInterfacePRIStats_def split: option.splits)

text \<open>
  Property C33: from zeroed statistics and with a ratio configured, up to \<open>2^60\<close> updates
  succeed (the divisor never wraps to zero); after \<open>n\<close> of them, 1000 n packets are
  compressed and 50 n are not, and the bytes saved are \<open>500 k n (n + 1)\<close> for \<open>k\<close> bytes per
  packet, as 64-bit values.
\<close>

theorem pri_statistics_closed_form:
  assumes "pg_compression_ratio (m_global_pri_config s) = Some ratio"
    and "um_at zero_pri_stats (m_pri_stats s) i = zero_pri_stats" and "n < 2 ^ 60"
  shows "\<exists>s' st. pri_updates n i s = Normal s' \<and> um_at zero_pri_stats (m_pri_stats s') i = st \<and>
    packets_compressed st = of_nat (1000 * n) \<and> packets_uncompressed st = of_nat (50 * n) \<and>
    bytes_saved st = of_nat (500 * unat (ratio * 42 div 100) * (n * (n + 1)))"
  using pri_updates_after [OF assms] unfolding pri_after_def bytes_per_packet_def by blast

theorem pri_statistics_closed_form_witness:
  "\<exists>s' st. pri_updates 3 ''Ethernet0'' (enableGlobalPRI True True 25 UEPRIManager) = Normal s' \<and>
    um_at zero_pri_stats (m_pri_stats s') ''Ethernet0'' = st \<and>
    packets_compressed st = 3000 \<and> bytes_saved st = 60000"
proof -
  have "\<exists>s' st. pri_updates 3 ''Ethernet0'' (enableGlobalPRI True True 25 UEPRIManager) = Normal s' \<and>
    um_at zero_pri_stats (m_pri_stats s') ''Ethernet0'' = st \<and>
    packets_compressed st = of_nat (1000 * 3) \<and> packets_uncompressed st = of_nat (50 * 3) \<and>
    bytes_saved st = of_nat (500 * unat (25 * 42 div 100 :: 32 word) * (3 * (3 + 1)))"
    by (rule pri_statistics_closed_form) (simp_all add: enableGlobalPRI_def UEPRIManager_def um_at_def)
  then show ?thesis by auto
qed

text \<open>
  The reported compression ratio is not that of the packets: after \<open>n\<close> updates
  at \<open>k\<close> bytes per 42-byte header it is \<open>100 k (n + 1) / 84\<close> percent (as long as nothing
  overflows), because each update adds the saving of all packets counted so far. It grows
  with every update instead of staying at \<open>100 k / 42\<close>.
\<close>

theorem pri_reported_ratio:
  assumes "pg_compression_ratio (m_global_pri_config s) = Some ratio"
    and "um_at zero_pri_stats (m_pri_stats s) i = zero_pri_stats" and "0 < n"
    and "50000 * unat (ratio * 42 div 100) * (n * (n + 1)) < 2 ^ 64" and "42000 * n < 2 ^ 64"
  shows "\<exists>s'. pri_updates n i s = Normal s' \<and>
    unat (compression_ratio_actual (um_at zero_pri_stats (m_pri_stats s') i)) =
      100 * unat (ratio * 42 div 100) * (n + 1) div 84"
proof -
  define k where "k = unat (ratio * 42 div 100)"
  obtain s' where s': "pri_updates n i s = Normal s'"
    and r: "compression_ratio_actual (um_at zero_pri_stats (m_pri_stats s') i) =
      (of_nat (500 * k * (n * (n + 1))) * 100) div (of_nat (1000 * n) * 42)"
    using pri_updates_after [OF assms(1,2), of n] assms(3,5) by (auto simp: bytes_per_packet_def k_def)
  have "(of_nat (500 * k * (n * (n + 1))) * 100 :: 64 word) = of_nat (50000 * k * (n * (n + 1)))"
    and "(of_nat (1000 * n) * 42 :: 64 word) = of_nat (42000 * n)"
    by (simp_all add: algebra_simps)
  then have "unat (compression_ratio_actual (um_at zero_pri_stats (m_pri_stats s') i)) =
      50000 * k * (n * (n + 1)) div (42000 * n)"
    using assms(4,5) by (simp only: r unat_div unat_of_nat take_bit_nat_eq_self k_def) simp
  also have "\<dots> = (50 * k * (n + 1)) * (1000 * n) div (42 * (1000 * n))"
    by (simp add: algebra_simps)
  also have "\<dots> = 50 * k * (n + 1) div 42"
    using assms(3) by (subst div_mult_mult2) auto
  also have "\<dots> = 2 * (50 * k * (n + 1)) div (2 * 42)"
    by (subst div_mult_mult1) auto
  finally show ?thesis using s' by (auto simp: k_def algebra_simps)
qed

theorem pri_reported_ratio_witness:
  "\<exists>s'. pri_updates 9 ''Ethernet0'' (enableGlobalPRI True True 25 UEPRIManager) = Normal s' \<and>
    unat (compression_ratio_actual (um_at zero_pri_stats (m_pri_stats s') ''Ethernet0'')) = 119"
proof -
  have "\<exists>s'. pri_updates 9 ''Ethernet0'' (enableGlobalPRI True True 25 UEPRIManager) = Normal s' \<and>
    unat (compression_ratio_actual (um_at zero_pri_stats (m_pri_stats s') ''Ethernet0'')) =
      100 * unat (25 * 42 div 100 :: 32 word) * (9 + 1) div 84"
    by (rule pri_reported_ratio) (simp_all add: enableGlobalPRI_def UEPRIManager_def um_at_def)
  then show ?thesis by simp
qed

text \<open>
  On a clock that does not run backwards, two PRI statistics updates of the
  periodic task are at least five seconds apart.
\<close>

theorem pri_statistics_spaced:
  assumes "sorted (pri_last_stats_update s # ts)"
  shows "sorted_wrt (\<lambda>a b. a + 5 \<le> b) (fire_times pri_doPeriodicTask pri_last_stats_update 5 ts s)"
  by (rule pri_timer.fire_times_spaced [OF assms below_horizon])

theorem pri_statistics_spaced_witness:
  "sorted_wrt (\<lambda>a b. a + 5 \<le> b)
     (fire_times pri_doPeriodicTask pri_last_stats_update 5 [7, 8, 12, 13] UEPRIManager) \<and>
   fire_times pri_doPeriodicTask pri_last_stats_update 5 [7, 8, 12, 13] UEPRIManager = [7, 12]"
proof
  show "sorted_wrt (\<lambda>a b. a + 5 \<le> b)
     (fire_times pri_doPeriodicTask pri_last_stats_update 5 [7, 8, 12, 13] UEPRIManager)"
    by (rule pri_statistics_spaced) (simp add: UEPRIManager_def)
qed (simp add: pri_doPeriodicTask_def updatePRIStatistics_def range_for_def UEPRIManager_def)

end
