(* ===== verification/Link_Daemon.thy ===== *)
theory Link_Daemon
  imports Swss
begin

text \<open>
  \<open>sonic-ue-linkd/src/ue_linkd.cpp\<close>: the class \<open>UELinkD\<close>, which turns the entries of the
  configuration table into application and state entries and starts a monitor thread per
  port with forward error correction. The tables are written through \<open>swss::Table\<close>: the
  daemon's output is the trace of its table commands. The monitor threads are the subject
  of the theory \<open>Fec_Monitor\<close>.
\<close>

section \<open>Tables and state\<close>

datatype tbl_cmd =
    Tbl_set db string string fvs \<comment> \<open>database, table, key, fields\<close>
  | Tbl_del db string string

fun on_entry :: "db \<Rightarrow> string \<Rightarrow> string \<Rightarrow> tbl_cmd \<Rightarrow> bool" where
  "on_entry d t k (Tbl_set d' t' k' f) \<longleftrightarrow> d' = d \<and> t' = t \<and> k' = k"
| "on_entry d t k (Tbl_del d' t' k') \<longleftrightarrow> d' = d \<and> t' = t \<and> k' = k"

text \<open>The fields an entry was last set to, unless deleted since.\<close>

fun entry_after :: "db \<Rightarrow> string \<Rightarrow> string \<Rightarrow> fvs option \<Rightarrow> tbl_cmd \<Rightarrow> fvs option" where
  "entry_after d t k e (Tbl_set d' t' k' f) = (if d' = d \<and> t' = t \<and> k' = k then Some f else e)"
| "entry_after d t k e (Tbl_del d' t' k') = (if d' = d \<and> t' = t \<and> k' = k then None else e)"

definition entry :: "tbl_cmd list \<Rightarrow> db \<Rightarrow> string \<Rightarrow> string \<Rightarrow> fvs option" where
  "entry tr d t k = foldl (entry_after d t k) None tr"

lemma entry_Nil [simp]: "entry [] d t k = None"
  by (simp add: entry_def)

lemma entry_append [simp]: "entry (tr @ tr') d t k = foldl (entry_after d t k) (entry tr d t k) tr'"
  by (simp add: entry_def)

record link_state =
  m_running :: bool
  ld_trace :: "tbl_cmd list"
  ld_monitors :: "string list" \<comment> \<open>the ports of the monitor threads started so far\<close>

definition UELinkD :: link_state where
  "UELinkD = \<lparr>m_running = True, ld_trace = [], ld_monitors = []\<rparr>"

definition table_set :: "db \<Rightarrow> string \<Rightarrow> string \<Rightarrow> fvs \<Rightarrow> link_state \<Rightarrow> link_state" where
  "table_set d t k f s = s\<lparr>ld_trace := ld_trace s @ [Tbl_set d t k f]\<rparr>"

definition table_del :: "db \<Rightarrow> string \<Rightarrow> string \<Rightarrow> link_state \<Rightarrow> link_state" where
  "table_del d t k s = s\<lparr>ld_trace := ld_trace s @ [Tbl_del d t k]\<rparr>"

lemma table_set_frame [simp]:
  "m_running (table_set d t k f s) = m_running s"
  "ld_monitors (table_set d t k f s) = ld_monitors s"
  "ld_trace (table_set d t k f s) = ld_trace s @ [Tbl_set d t k f]"
  by (simp_all add: table_set_def)

lemma table_del_frame [simp]:
  "m_running (table_del d t k s) = m_running s"
  "ld_monitors (table_del d t k s) = ld_monitors s"
  "ld_trace (table_del d t k s) = ld_trace s @ [Tbl_del d t k]"
  by (simp_all add: table_del_def)

section \<open>Configuring a port\<close>

definition initializeLLR :: "string \<Rightarrow> link_state \<Rightarrow> link_state" where
  "initializeLLR port s =
     table_set STATE_DB ''UE_LINK_STATE_TABLE'' (''LLR|'' @ port)
       [(''retry_count'', ''3''), (''retry_timeout_ms'', ''100''), (''window_size'', ''128''),
        (''state'', ''active'')] s"

definition triggerLLDPNegotiation :: "string \<Rightarrow> link_state \<Rightarrow> link_state" where
  "triggerLLDPNegotiation port s =
     table_set APPL_DB ''LLDP_CUSTOM_TLV_TABLE'' (port @ ''|UE_CAPABILITIES'')
       [(''ue_capable'', ''true''), (''llr_supported'', ''true''), (''pri_supported'', ''true''),
        (''inc_supported'', ''true''), (''uet_version'', ''1.0'')] s"

definition initializePRI :: "string \<Rightarrow> link_state \<Rightarrow> link_state" where
  "initializePRI port s =
     triggerLLDPNegotiation port
       (table_set STATE_DB ''UE_LINK_STATE_TABLE'' (''PRI|'' @ port)
          [(''compression_mode'', ''aggressive''), (''header_optimization'', ''enabled''),
           (''state'', ''negotiating'')] s)"

definition fec_zero_fvs :: fvs where
  "fec_zero_fvs =
     [(''corrected_codewords'', ''0''), (''uncorrected_codewords'', ''0''),
      (''total_codewords'', ''0''), (''pre_fec_ber'', ''0.0''), (''post_fec_ber'', ''0.0'')]"

definition setupFECMonitoring :: "string \<Rightarrow> link_state \<Rightarrow> link_state" where
  "setupFECMonitoring port s =
     (let s1 = table_set COUNTERS_DB ''UE_FEC_STATS_TABLE'' port fec_zero_fvs s
      in s1\<lparr>ld_monitors := ld_monitors s1 @ [port]\<rparr>)"

record link_locals =
  ll_llr_enabled :: bool
  ll_pri_enabled :: bool
  ll_fec_mode :: string

definition link_defaults :: link_locals where
  "link_defaults = \<lparr>ll_llr_enabled = False, ll_pri_enabled = False, ll_fec_mode = ''none''\<rparr>"

fun link_field :: "link_locals \<Rightarrow> string \<times> string \<Rightarrow> link_locals" where
  "link_field l (field, value) =
     (if field = ''llr_enable'' then l\<lparr>ll_llr_enabled := (value = ''true'')\<rparr>
      else if field = ''pri_enable'' then l\<lparr>ll_pri_enabled := (value = ''true'')\<rparr>
      else if field = ''fec_mode'' then l\<lparr>ll_fec_mode := value\<rparr>
      else l)"

definition parse_link :: "fvs \<Rightarrow> link_locals" where
  "parse_link data = foldl link_field link_defaults data"

definition flag_text :: "bool \<Rightarrow> string" where
  "flag_text b = (if b then ''true'' else ''false'')"

definition processLinkConfig :: "string \<Rightarrow> fvs \<Rightarrow> link_state \<Rightarrow> link_state" where
  "processLinkConfig port data s =
     (let l = parse_link data;
          s1 = table_set APPL_DB ''UE_LINK_TABLE'' port
                 [(''llr_enabled'', flag_text (ll_llr_enabled l)),
                  (''pri_enabled'', flag_text (ll_pri_enabled l)),
                  (''fec_mode'', ll_fec_mode l), (''admin_status'', ''up'')] s;
          s2 = (if ll_llr_enabled l then initializeLLR port s1 else s1);
          s3 = (if ll_pri_enabled l then initializePRI port s2 else s2)
      in if ll_fec_mode l \<noteq> ''none'' then setupFECMonitoring port s3 else s3)"

section \<open>The event loop\<close>

text \<open>What \<open>Select::select\<close> returned: an error, a timeout, the configuration table with the
  entry popped from it, or another selectable.\<close>

datatype selected = Sel_error | Sel_timeout | Sel_config task | Sel_foreign

definition handle_selected :: "selected \<Rightarrow> link_state \<Rightarrow> link_state" where
  "handle_selected r s =
     (case r of
        Sel_config kfv \<Rightarrow>
          (case kfvOp kfv of
             SET_COMMAND \<Rightarrow> processLinkConfig (kfvKey kfv) (kfvFieldsValues kfv) s
           | DEL_COMMAND \<Rightarrow> table_del APPL_DB ''UE_LINK_TABLE'' (kfvKey kfv) s
           | Other_command _ \<Rightarrow> s)
      | _ \<Rightarrow> s)"

definition link_stop :: "link_state \<Rightarrow> link_state" where
  "link_stop s = s\<lparr>m_running := False\<rparr>"

text \<open>
  The loop over the results of \<open>select\<close>; a signal handler may call \<open>stop\<close> between two of
  them. The flag is read at the top of the loop.
\<close>

datatype link_event = Signal | Selected selected

fun link_run :: "link_state \<Rightarrow> link_event list \<Rightarrow> link_state" where
  "link_run s [] = s"
| "link_run s (Signal # es) = link_run (link_stop s) es"
| "link_run s (Selected r # es) =
     (if m_running s then link_run (handle_selected r s) es else s)"

section \<open>The process\<close>

text \<open>
  \<open>main\<close>: the handler is installed before the daemon is constructed and ignores a signal while
  \<open>g_ueLinkD\<close> is null (\<open>None\<close>). An exception of the constructor or of an iteration (\<open>select\<close>,
  \<open>pop\<close> or a table) ends the process with \<open>EXIT_FAILURE\<close>, the end of the loop with
  \<open>EXIT_SUCCESS\<close>.
\<close>

datatype main_event = Main_signal | Main_constructed | Main_raises | Main_selected selected

datatype main_state = Main_starting | Main_running link_state | Main_exited int

fun link_main :: "link_state option \<Rightarrow> main_event list \<Rightarrow> main_state" where
  "link_main None [] = Main_starting"
| "link_main None (Main_signal # es) = link_main None es"
| "link_main None (Main_constructed # es) = link_main (Some UELinkD) es"
| "link_main None (Main_raises # es) = Main_exited 1"
| "link_main None (Main_selected r # es) = link_main None es"
| "link_main (Some s) [] = (if m_running s then Main_running s else Main_exited 0)"
| "link_main (Some s) (Main_signal # es) = link_main (Some (link_stop s)) es"
| "link_main (Some s) (Main_constructed # es) = link_main (Some s) es"
| "link_main (Some s) (Main_raises # es) = Main_exited (if m_running s then 1 else 0)"
| "link_main (Some s) (Main_selected r # es) =
     (if m_running s then link_main (Some (handle_selected r s)) es else Main_exited 0)"

fun as_main :: "link_event \<Rightarrow> main_event" where
  "as_main Signal = Main_signal"
| "as_main (Selected r) = Main_selected r"

section \<open>One step of the loop\<close>

lemma handle_running [simp]: "m_running (handle_selected r s) = m_running s"
  by (auto simp: handle_selected_def processLinkConfig_def Let_def initializeLLR_def
      initializePRI_def triggerLLDPNegotiation_def setupFECMonitoring_def
      split: selected.split operation.split)

lemma link_run_append:
  "m_running s \<Longrightarrow> link_run s (map Selected rs @ es) = link_run (link_run s (map Selected rs)) es"
  by (induction rs arbitrary: s) auto

lemma link_run_running: "m_running (link_run s (map Selected rs)) = m_running s"
  by (induction rs arbitrary: s) auto

lemma link_run_snoc:
  "link_run UELinkD (map Selected (rs @ [r])) = handle_selected r (link_run UELinkD (map Selected rs))"
  using link_run_append [of UELinkD rs "[Selected r]"] link_run_running [of UELinkD rs]
  by (simp add: UELinkD_def)

text \<open>The fields that a configuration of a port leads to, and the requests that ask for them.\<close>

definition link_app_fvs :: "link_locals \<Rightarrow> fvs" where
  "link_app_fvs l =
     [(''llr_enabled'', flag_text (ll_llr_enabled l)), (''pri_enabled'', flag_text (ll_pri_enabled l)),
      (''fec_mode'', ll_fec_mode l), (''admin_status'', ''up'')]"

definition llr_active_fvs :: fvs where
  "llr_active_fvs =
     [(''retry_count'', ''3''), (''retry_timeout_ms'', ''100''), (''window_size'', ''128''),
      (''state'', ''active'')]"

fun sets_port :: "string \<Rightarrow> (link_locals \<Rightarrow> bool) \<Rightarrow> selected \<Rightarrow> bool" where
  "sets_port p P (Sel_config kfv) \<longleftrightarrow>
     kfvOp kfv = SET_COMMAND \<and> kfvKey kfv = p \<and> P (parse_link (kfvFieldsValues kfv))"
| "sets_port p P _ \<longleftrightarrow> False"

text \<open>The mirror of a port's entry in the configuration table.\<close>

fun mirror_step :: "string \<Rightarrow> fvs option \<Rightarrow> selected \<Rightarrow> fvs option" where
  "mirror_step p e (Sel_config kfv) =
     (if kfvKey kfv \<noteq> p then e
      else case kfvOp kfv of
        SET_COMMAND \<Rightarrow> Some (link_app_fvs (parse_link (kfvFieldsValues kfv)))
      | DEL_COMMAND \<Rightarrow> None
      | Other_command _ \<Rightarrow> e)"
| "mirror_step p e _ = e"

lemmas link_ops = handle_selected_def processLinkConfig_def Let_def initializeLLR_def
  initializePRI_def triggerLLDPNegotiation_def setupFECMonitoring_def

lemma handle_app_entry:
  "entry (ld_trace (handle_selected r s)) APPL_DB ''UE_LINK_TABLE'' p =
   mirror_step p (entry (ld_trace s) APPL_DB ''UE_LINK_TABLE'' p) r"
  by (cases r) (auto simp: link_ops link_app_fvs_def split: operation.split)

lemma handle_llr_entry:
  "entry (ld_trace (handle_selected r s)) STATE_DB ''UE_LINK_STATE_TABLE'' (''LLR|'' @ p) =
   (if sets_port p ll_llr_enabled r then Some llr_active_fvs
    else entry (ld_trace s) STATE_DB ''UE_LINK_STATE_TABLE'' (''LLR|'' @ p))"
  by (cases r) (auto simp: link_ops llr_active_fvs_def split: operation.split)

lemma handle_monitors:
  "count_list (ld_monitors (handle_selected r s)) p =
   count_list (ld_monitors s) p + (if sets_port p (\<lambda>l. ll_fec_mode l \<noteq> ''none'') r then 1 else 0)"
  by (cases r) (auto simp: link_ops split: operation.split)

section \<open>Properties\<close>

text \<open>
  Property C35: after any sequence of loop iterations, the application entry of a port is
  exactly the mirror of its configuration: what the last SET of the port says, read with
  the last occurrence of each field, and absent after a DEL.
\<close>

theorem link_app_table_mirrors:
  "entry (ld_trace (link_run UELinkD (map Selected rs))) APPL_DB ''UE_LINK_TABLE'' p =
   foldl (mirror_step p) None rs"
proof (induction rs rule: rev_induct)
  case Nil
  then show ?case by (simp add: UELinkD_def)
next
  case (snoc r rs)
  then show ?case by (simp only: link_run_snoc handle_app_entry foldl_append foldl.simps)
qed

text \<open>
  Property C36: the LLR state entry of a port, in contrast, never goes away: after any
  sequence of loop iterations it is \<open>active\<close> exactly when some SET of the port in the
  history enabled LLR, also if a later SET disabled it or the port was deleted.
\<close>

theorem link_llr_state_latched:
  "entry (ld_trace (link_run UELinkD (map Selected rs))) STATE_DB ''UE_LINK_STATE_TABLE'' (''LLR|'' @ p) =
   (if list_ex (sets_port p ll_llr_enabled) rs then Some llr_active_fvs else None)"
proof (induction rs rule: rev_induct)
  case Nil
  then show ?case by (simp add: UELinkD_def)
next
  case (snoc r rs)
  then show ?case by (simp only: link_run_snoc handle_llr_entry) auto
qed

text \<open>
  Every SET of a port with a FEC mode starts one more monitor thread for it;
  no request ever stops one, so their number is the number of such requests.
\<close>

theorem link_monitors_accumulate:
  "count_list (ld_monitors (link_run UELinkD (map Selected rs))) p =
   length (filter (sets_port p (\<lambda>l. ll_fec_mode l \<noteq> ''none'')) rs)"
proof (induction rs rule: rev_induct)
  case Nil
  then show ?case by (simp add: UELinkD_def)
next
  case (snoc r rs)
  then show ?case by (simp only: link_run_snoc handle_monitors) auto
qed

text \<open>
  Once \<open>stop\<close> was called, the loop ends: whatever events would follow, no table
  is written and no thread is started any more.
\<close>

theorem link_stop_final:
  "\<not> m_running (link_run s (es @ Signal # fs)) \<and>
   ld_trace (link_run s (es @ Signal # fs)) = ld_trace (link_run s es) \<and>
   ld_monitors (link_run s (es @ Signal # fs)) = ld_monitors (link_run s es)"
proof (induction es arbitrary: s)
  case Nil
  have "link_run (link_stop s) fs = link_stop s"
  proof (induction fs)
    case Nil
    then show ?case by simp
  next
    case (Cons f fs)
    then show ?case by (cases f) (auto simp: link_stop_def)
  qed
  then show ?case by (simp add: link_stop_def)
next
  case (Cons e es)
  then show ?case by (cases e) auto
qed

text \<open>While nothing raises, the process is its event loop.\<close>

lemma link_main_run:
  "link_main (Some s) (map as_main es) =
   (if m_running (link_run s es) then Main_running (link_run s es) else Main_exited 0)"
proof (induction es arbitrary: s)
  case Nil
  then show ?case by simp
next
  case (Cons e es)
  then show ?case by (cases e) auto
qed

lemma link_main_raise:
  "link_main (Some s) (map as_main es @ Main_raises # fs) =
   Main_exited (if m_running (link_run s es) then 1 else 0)"
proof (induction es arbitrary: s)
  case Nil
  then show ?case by simp
next
  case (Cons e es)
  then show ?case by (cases e) auto
qed

lemma link_run_running_iff: "m_running (link_run s es) \<longleftrightarrow> m_running s \<and> Signal \<notin> set es"
proof (induction es arbitrary: s)
  case Nil
  then show ?case by simp
next
  case (Cons e es)
  then show ?case by (cases e) (auto simp: link_stop_def)
qed

lemma link_main_starting:
  "link_main None (replicate k Main_signal @ Main_constructed # es) = link_main (Some UELinkD) es"
  by (induction k) simp_all

text \<open>
  Property C28: the exit code of the link daemon tells how it ended. Signals that arrive while
  the daemon is being constructed are lost; after that it runs until the first signal and then
  exits with 0, while an exception makes it exit with 1 unless a signal came first. Nothing
  else ends it.
\<close>

theorem link_main_exit:
  "link_main None (replicate k Main_signal @ Main_constructed # map as_main es) =
     (if Signal \<in> set es then Main_exited 0 else Main_running (link_run UELinkD es)) \<and>
   link_main None (replicate k Main_signal @ Main_constructed # map as_main es @ Main_raises # fs) =
     Main_exited (if Signal \<in> set es then 0 else 1) \<and>
   link_main None (replicate k Main_signal @ Main_raises # fs) = Main_exited 1"
proof -
  have "m_running UELinkD" by (simp add: UELinkD_def)
  moreover have "link_main None (replicate k Main_signal @ Main_raises # fs) = Main_exited 1"
    by (induction k) simp_all
  ultimately show ?thesis
    by (simp add: link_main_starting link_main_run link_main_raise link_run_running_iff)
qed

end
