(* ===== verification/Fec_Monitor.thy ===== *)
theory Fec_Monitor
  imports Link_Daemon Cpp_Double
begin

text \<open>
  The FEC monitor threads of \<open>ue_linkd.cpp\<close> (\<open>monitorFEC\<close>, started by
  \<open>setupFECMonitoring\<close>): one loop iteration as a function of the values read and the
  numbers drawn, and the interleaving of the threads with the configuration thread as a
  step relation. \<open>Table::get\<close> is not part of the repository: what a read returns after a
  trace of commands is a parameter, with the documented behaviour as the locale
  \<open>table_reads\<close>.
\<close>

section \<open>One iteration\<close>

text \<open>
  An iteration updates the entry and may raise an alert, or an exception of \<open>std::stoull\<close>
  leaves the thread (which terminates the process), or it reads past the end of the vector.
  A total that wraps to zero makes the quotients infinite or NaN; that case is kept apart.
\<close>

datatype fec_tick = Fec_update fvs bool | Fec_throws exn | Fec_undefined ub | Fec_nonfinite

definition fec_fvs :: "64 word \<Rightarrow> 64 word \<Rightarrow> 64 word \<Rightarrow> rat \<Rightarrow> rat \<Rightarrow> fvs" where
  "fec_fvs corrected uncorrected total_cw pre post =
     [(''corrected_codewords'', to_string corrected),
      (''uncorrected_codewords'', to_string uncorrected),
      (''total_codewords'', to_string total_cw),
      (''pre_fec_ber'', to_string_double pre),
      (''post_fec_ber'', to_string_double post)]"

definition pre_fec_ber :: "64 word \<Rightarrow> 64 word \<Rightarrow> 64 word \<Rightarrow> rat" where
  "pre_fec_ber corrected uncorrected total_cw =
     double_ratio (unat (corrected + uncorrected)) (unat total_cw)"

definition post_fec_ber :: "64 word \<Rightarrow> 64 word \<Rightarrow> rat" where
  "post_fec_ber uncorrected total_cw = double_ratio (unat uncorrected) (unat total_cw)"

text \<open>The double nearest to the literal \<open>1e-12\<close>.\<close>

definition ber_threshold :: rat where
  "ber_threshold = rnd64 (1 / 1000000000000)"

text \<open>\<open>r1\<close> and \<open>r2\<close> are the two results of \<open>rand()\<close>.\<close>

definition fec_iteration :: "nat \<Rightarrow> nat \<Rightarrow> string list \<Rightarrow> fec_tick" where
  "fec_iteration r1 r2 vs =
     (if length vs \<le> 2 then Fec_undefined Out_of_bounds
      else case stoull (vs ! 2) of Inl e \<Rightarrow> Fec_throws e | Inr t \<Rightarrow>
        (case stoull (vs ! 0) of Inl e \<Rightarrow> Fec_throws e | Inr c \<Rightarrow>
          (case stoull (vs ! 1) of Inl e \<Rightarrow> Fec_throws e | Inr u \<Rightarrow>
            (let total_cw = t + 1000;
                 corrected = c + of_nat (r1 mod 10);
                 uncorrected = u + (if r2 mod 100 = 0 then 1 else 0);
                 pre = pre_fec_ber corrected uncorrected total_cw;
                 post = post_fec_ber uncorrected total_cw
             in if total_cw = 0 then Fec_nonfinite
                else Fec_update (fec_fvs corrected uncorrected total_cw pre post)
                       (ber_threshold < post)))))"

section \<open>The threads\<close>

text \<open>
  A monitor is at the top of its loop, has tested \<open>m_running\<close> and entered the body, has read
  the values it will update, or is done: the test, the read and the write of the table are
  steps of their own, and other threads may move between any two of them. The state is what
  the threads share: the flag \<open>m_running\<close> and the table commands so far.
\<close>

datatype fec_pc = Top | Entered | Got "string list" | Finished

record fec_sys =
  fs_running :: bool
  fs_threads :: "(string \<times> fec_pc) list"
  fs_trace :: "tbl_cmd list"

abbreviation fec_entry :: "tbl_cmd list \<Rightarrow> string \<Rightarrow> fvs option" where
  "fec_entry tr p \<equiv> entry tr COUNTERS_DB ''UE_FEC_STATS_TABLE'' p"

definition fec_write :: "string \<Rightarrow> fvs \<Rightarrow> fec_sys \<Rightarrow> fec_sys" where
  "fec_write p f s = s\<lparr>fs_trace := fs_trace s @ [Tbl_set COUNTERS_DB ''UE_FEC_STATS_TABLE'' p f]\<rparr>"

definition set_pc :: "nat \<Rightarrow> fec_pc \<Rightarrow> fec_sys \<Rightarrow> fec_sys" where
  "set_pc i c s = s\<lparr>fs_threads := (fs_threads s)[i := (fst (fs_threads s ! i), c)]\<rparr>"

definition fec_init :: fec_sys where
  "fec_init = \<lparr>fs_running = True, fs_threads = [], fs_trace = []\<rparr>"

inductive fec_step :: "(tbl_cmd list \<Rightarrow> string \<Rightarrow> string list) \<Rightarrow> fec_sys \<Rightarrow> fec_sys \<Rightarrow> bool"
  for get where
  configured: "fec_step get s
     ((fec_write p fec_zero_fvs s)\<lparr>fs_threads := fs_threads s @ [(p, Top)]\<rparr>)"
| other_table: "\<not> (\<exists>p. on_entry COUNTERS_DB ''UE_FEC_STATS_TABLE'' p c) \<Longrightarrow>
     fec_step get s (s\<lparr>fs_trace := fs_trace s @ [c]\<rparr>)"
| enters: "i < length (fs_threads s) \<Longrightarrow> fs_threads s ! i = (p, Top) \<Longrightarrow> fs_running s \<Longrightarrow>
     fec_step get s (set_pc i Entered s)"
| reads: "i < length (fs_threads s) \<Longrightarrow> fs_threads s ! i = (p, Entered) \<Longrightarrow>
     fec_step get s (set_pc i (Got (get (fs_trace s) p)) s)"
| writes: "i < length (fs_threads s) \<Longrightarrow> fs_threads s ! i = (p, Got vs) \<Longrightarrow>
     fec_iteration r1 r2 vs = Fec_update f alert \<Longrightarrow>
     fec_step get s (set_pc i Top (fec_write p f s))"
| finishes: "i < length (fs_threads s) \<Longrightarrow> fs_threads s ! i = (p, Top) \<Longrightarrow> \<not> fs_running s \<Longrightarrow>
     fec_step get s (set_pc i Finished s)"
| stops: "fec_step get s (s\<lparr>fs_running := False\<rparr>)"

inductive fec_reach :: "(tbl_cmd list \<Rightarrow> string \<Rightarrow> string list) \<Rightarrow> fec_sys \<Rightarrow> bool" for get where
  start: "fec_reach get fec_init"
| step: "fec_reach get s \<Longrightarrow> fec_step get s s' \<Longrightarrow> fec_reach get s'"

section \<open>Reading the table\<close>

text \<open>A read returns the values of the last write of the key, in the order of its fields.\<close>

locale table_reads =
  fixes get :: "tbl_cmd list \<Rightarrow> string \<Rightarrow> string list"
  assumes get_set:
      "get (tr @ [Tbl_set COUNTERS_DB ''UE_FEC_STATS_TABLE'' p f]) p = map snd f"
    and get_other:
      "\<not> on_entry COUNTERS_DB ''UE_FEC_STATS_TABLE'' p c \<Longrightarrow> get (tr @ [c]) p = get tr p"
begin

lemma entry_read: "fec_entry tr p = Some f \<Longrightarrow> get tr p = map snd f"
proof (induction tr rule: rev_induct)
  case Nil
  then show ?case by simp
next
  case (snoc c tr)
  show ?case
  proof (cases "on_entry COUNTERS_DB ''UE_FEC_STATS_TABLE'' p c")
    case True
    with snoc.prems show ?thesis by (cases c) (auto simp: get_set)
  next
    case False
    then have "fec_entry (tr @ [c]) p = fec_entry tr p" by (cases c) auto
    with snoc False show ?thesis by (simp add: get_other)
  qed
qed

end

text \<open>The instance that reads the trace itself.\<close>

definition fec_get :: "tbl_cmd list \<Rightarrow> string \<Rightarrow> string list" where
  "fec_get tr p = (case fec_entry tr p of None \<Rightarrow> [] | Some f \<Rightarrow> map snd f)"

lemma entry_after_other: "\<not> on_entry d t k c \<Longrightarrow> entry_after d t k e c = e"
  by (cases c) auto

interpretation fec_table: table_reads fec_get
  by unfold_locales (auto simp: fec_get_def entry_after_other)

section \<open>What an iteration does to well-formed values\<close>

text \<open>
  The five values of an entry whose counters are consistent, the total being at most 1000
  for each of \<open>n\<close> table commands.
\<close>

definition fec_ok :: "nat \<Rightarrow> string list \<Rightarrow> bool" where
  "fec_ok n vs \<longleftrightarrow>
     (\<exists>(c :: 64 word) (u :: 64 word) (t :: 64 word) x y.
        vs = [to_string c, to_string u, to_string t, x, y] \<and>
        unat c + unat u \<le> unat t \<and> unat t \<le> 1000 * n)"

lemma fec_ok_mono: "fec_ok n vs \<Longrightarrow> n \<le> m \<Longrightarrow> fec_ok m vs"
  unfolding fec_ok_def by (elim exE conjE) (intro exI conjI; assumption | rule le_trans, assumption | simp)+

lemma fec_ok_zero: "fec_ok n (map snd fec_zero_fvs)"
  unfolding fec_ok_def fec_zero_fvs_def
  by (intro exI [of _ "0 :: 64 word"]) (simp add: text_eval)

definition fec_corrected :: "nat \<Rightarrow> 64 word \<Rightarrow> 64 word" where
  "fec_corrected r1 c = c + of_nat (r1 mod 10)"

definition fec_uncorrected :: "nat \<Rightarrow> 64 word \<Rightarrow> 64 word" where
  "fec_uncorrected r2 u = u + (if r2 mod 100 = 0 then 1 else 0)"

lemma fec_iteration_values:
  fixes c u t :: "64 word"
  assumes "t + 1000 \<noteq> 0"
  shows "fec_iteration r1 r2 [to_string c, to_string u, to_string t, x, y] =
    Fec_update
      (fec_fvs (fec_corrected r1 c) (fec_uncorrected r2 u) (t + 1000)
        (pre_fec_ber (fec_corrected r1 c) (fec_uncorrected r2 u) (t + 1000))
        (post_fec_ber (fec_uncorrected r2 u) (t + 1000)))
      (ber_threshold < post_fec_ber (fec_uncorrected r2 u) (t + 1000))"
  using assms
  by (simp add: fec_iteration_def stoull_to_string Let_def fec_corrected_def fec_uncorrected_def)

lemma fec_counter_bounds:
  fixes c u t :: "64 word"
  assumes "unat c + unat u \<le> unat t" and "unat t + 1000 < 2 ^ 64"
  shows "unat (t + 1000) = unat t + 1000"
    and "unat (fec_corrected r1 c) + unat (fec_uncorrected r2 u) \<le> unat (t + 1000)"
    and "unat (fec_corrected r1 c + fec_uncorrected r2 u) =
      unat (fec_corrected r1 c) + unat (fec_uncorrected r2 u)"
    and "unat (fec_uncorrected r2 u) = unat u + (if r2 mod 100 = 0 then 1 else 0)"
proof -
  show t: "unat (t + 1000) = unat t + 1000"
    using assms(2) by (subst unat_add_no_wrap) simp_all
  have k: "unat (of_nat (r1 mod 10) :: 64 word) = r1 mod 10"
    by (simp add: unat_of_nat take_bit_nat_eq_self)
  have r: "r1 mod 10 < 10" by simp
  have c: "unat (fec_corrected r1 c) = unat c + r1 mod 10"
    unfolding fec_corrected_def using assms r by (subst unat_add_no_wrap) (simp_all add: k)
  show u: "unat (fec_uncorrected r2 u) = unat u + (if r2 mod 100 = 0 then 1 else 0)"
    unfolding fec_uncorrected_def using assms by (subst unat_add_no_wrap) simp_all
  show "unat (fec_corrected r1 c) + unat (fec_uncorrected r2 u) \<le> unat (t + 1000)"
    using assms(1) r unfolding c u t by (cases "r2 mod 100 = 0") (simp_all del: mod_less_divisor)
  then show "unat (fec_corrected r1 c + fec_uncorrected r2 u) =
      unat (fec_corrected r1 c) + unat (fec_uncorrected r2 u)"
    using unat_bound [of "t + 1000"] by (intro unat_add_no_wrap) simp
qed

lemma fec_iteration_ok:
  assumes "fec_ok n vs" and "1000 * (n + 1) < 2 ^ 64"
  shows "\<exists>f alert. fec_iteration r1 r2 vs = Fec_update f alert \<and> fec_ok (n + 1) (map snd f)"
proof -
  from assms(1) obtain c u t :: "64 word" and x y
    where vs: "vs = [to_string c, to_string u, to_string t, x, y]"
      and le: "unat c + unat u \<le> unat t" and n: "unat t \<le> 1000 * n"
    unfolding fec_ok_def by blast
  from n assms(2) have t: "unat t + 1000 < 2 ^ 64" by simp
  note b = fec_counter_bounds [OF le t]
  from b(1) have nz: "t + 1000 \<noteq> 0" by (metis add_is_0 unat_0 zero_neq_numeral)
  have "fec_ok (n + 1) (map snd (fec_fvs (fec_corrected r1 c) (fec_uncorrected r2 u) (t + 1000) p q))" for p q
    unfolding fec_ok_def fec_fvs_def
    using b(1) b(2) [of r1 r2] n by (intro exI [of _ "fec_corrected r1 c"] exI [of _ "fec_uncorrected r2 u"] exI [of _ "t + 1000"]) simp
  then show ?thesis
    by (simp only: vs fec_iteration_values [OF nz]) blast
qed

section \<open>Reachable states\<close>

inductive_cases fec_step_cases: "fec_step get s s'"

lemma fec_write_frame [simp]:
  "fs_running (fec_write p f s) = fs_running s"
  "fs_threads (fec_write p f s) = fs_threads s"
  "fs_trace (fec_write p f s) = fs_trace s @ [Tbl_set COUNTERS_DB ''UE_FEC_STATS_TABLE'' p f]"
  by (simp_all add: fec_write_def)

lemma set_pc_frame [simp]:
  "fs_running (set_pc i c s) = fs_running s"
  "fs_trace (set_pc i c s) = fs_trace s"
  "fs_threads (set_pc i c s) = (fs_threads s)[i := (fst (fs_threads s ! i), c)]"
  by (simp_all add: set_pc_def)

lemma set_pc_ports [simp]: "map fst ((fs_threads s)[i := (fst (fs_threads s ! i), c)]) = map fst (fs_threads s)"
  by (simp add: map_update list_update_same_conv map_update nth_map list_update_id) (metis list_update_beyond list_update_id linorder_not_le nth_map length_map)

lemma fec_entry_other:
  "\<not> (\<exists>p. on_entry COUNTERS_DB ''UE_FEC_STATS_TABLE'' p c) \<Longrightarrow> fec_entry (tr @ [c]) p = fec_entry tr p"
  by (simp add: entry_after_other)

text \<open>A monitor whose test finds the daemon running, and its read of the table.\<close>

lemma enters_and_reads:
  assumes "i < length (fs_threads s)" and "fs_threads s ! i = (p, Top)" and "fs_running s"
  shows "(fec_step get)\<^sup>*\<^sup>* s (set_pc i (Got (get (fs_trace s) p)) s)"
proof -
  let ?s = "set_pc i Entered s"
  have "fec_step get s ?s" by (rule fec_step.enters [OF assms])
  moreover have "fec_step get ?s (set_pc i (Got (get (fs_trace ?s) p)) ?s)"
    by (rule fec_step.reads) (use assms in simp_all)
  moreover have "set_pc i (Got (get (fs_trace ?s) p)) ?s = set_pc i (Got (get (fs_trace s) p)) s"
    using assms(1) by (simp add: set_pc_def)
  ultimately show ?thesis by (metis converse_rtranclp_into_rtranclp r_into_rtranclp)
qed

definition fec_inv :: "fec_sys \<Rightarrow> bool" where
  "fec_inv s \<longleftrightarrow>
     (\<forall>p f. fec_entry (fs_trace s) p = Some f \<longrightarrow> fec_ok (length (fs_trace s)) (map snd f)) \<and>
     (\<forall>p c. (p, c) \<in> set (fs_threads s) \<longrightarrow>
        fec_entry (fs_trace s) p \<noteq> None \<and>
        (\<forall>vs. c = Got vs \<longrightarrow> fec_ok (length (fs_trace s)) vs))"

lemma fec_invD:
  assumes "fec_inv s"
  shows "fec_entry (fs_trace s) p = Some f \<Longrightarrow> fec_ok (length (fs_trace s)) (map snd f)"
    and "(p, c) \<in> set (fs_threads s) \<Longrightarrow> fec_entry (fs_trace s) p \<noteq> None"
    and "(p, Got vs) \<in> set (fs_threads s) \<Longrightarrow> fec_ok (length (fs_trace s)) vs"
  using assms unfolding fec_inv_def by blast+

lemma thread_update_cases:
  assumes "(p, c) \<in> set (ths[i := (q, d)])" and "i < length ths"
  shows "(p, c) \<in> set ths \<or> (p = q \<and> c = d)"
  using assms set_update_subset_insert [of ths i "(q, d)"] by auto

lemmas fec_step_elim = fec_step_cases
  [consumes 1, case_names configured other_table enters reads writes finishes stops]

lemma update_ports:
  "i < length ths \<Longrightarrow> ths ! i = (p, c) \<Longrightarrow> map fst (ths[i := (p, d)]) = map fst ths"
  by (simp add: map_update) (metis fst_conv list_update_id nth_map)

text \<open>A step that appends one command, or none, and moves at most one thread.\<close>

lemma fec_inv_write:
  assumes "fec_inv s" and "fec_ok (length (fs_trace s) + 1) (map snd f)"
  shows "fec_inv (fec_write p f s)"
proof -
  have "fec_ok (length (fs_trace s) + 1) (map snd g)" if "fec_entry (fs_trace s) q = Some g" for q g
    by (rule fec_ok_mono [OF fec_invD(1) [OF assms(1) that]]) simp
  moreover have "fec_ok (length (fs_trace s) + 1) vs" if "(q, Got vs) \<in> set (fs_threads s)" for q vs
    by (rule fec_ok_mono [OF fec_invD(3) [OF assms(1) that]]) simp
  ultimately show ?thesis
    using assms(2) fec_invD(2) [OF assms(1)] unfolding fec_inv_def by (auto split: if_splits)
qed

lemma fec_inv_set_pc:
  assumes "fec_inv s" and "i < length (fs_threads s)" and "fs_threads s ! i = (p, d)"
    and "\<And>vs. c = Got vs \<Longrightarrow> fec_ok (length (fs_trace s)) vs"
  shows "fec_inv (set_pc i c s)"
proof -
  have mem: "(p, d) \<in> set (fs_threads s)" using assms(2,3) nth_mem by fastforce
  have "(q, e) \<in> set (fs_threads s) \<or> (q = p \<and> e = c)"
    if "(q, e) \<in> set ((fs_threads s)[i := (p, c)])" for q e
    using that assms(2) by (rule thread_update_cases)
  then show ?thesis
    using fec_invD [OF assms(1)] mem assms(3,4) unfolding fec_inv_def
    by (simp del: not_None_eq) blast
qed

lemma fec_step_trace: "fec_step get s s' \<Longrightarrow> length (fs_trace s) \<le> length (fs_trace s')"
  by (erule fec_step_elim) auto

text \<open>The client side of the table: what holds for any \<open>get\<close> that reads the last write.\<close>

context table_reads
begin

lemma fec_inv_step:
  assumes "fec_inv s" and "fec_step get s s'"
    and "1000 * length (fs_trace s') < 2 ^ 64"
  shows "fec_inv s'"
  using assms(2)
proof (cases rule: fec_step_elim)
  case (configured p)
  have "fec_inv (fec_write p fec_zero_fvs s)"
    by (rule fec_inv_write [OF assms(1) fec_ok_zero])
  then show ?thesis
    using configured unfolding fec_inv_def by auto
next
  case (other_table c)
  have "fec_entry (fs_trace s') p = fec_entry (fs_trace s) p" for p
    using other_table by (simp add: fec_entry_other del: entry_append)
  moreover have "fec_ok (length (fs_trace s')) vs" if "fec_ok (length (fs_trace s)) vs" for vs
    using fec_ok_mono [OF that] other_table by simp
  ultimately show ?thesis
    using assms(1) other_table unfolding fec_inv_def by simp
next
  case (enters i p)
  then show ?thesis by (auto intro: fec_inv_set_pc [OF assms(1)])
next
  case (reads i p)
  then have "(p, Entered) \<in> set (fs_threads s)" by (metis nth_mem)
  then obtain f where f: "fec_entry (fs_trace s) p = Some f"
    using fec_invD(2) [OF assms(1)] by blast
  then have "get (fs_trace s) p = map snd f"
    by (rule entry_read)
  with fec_invD(1) [OF assms(1) f] reads show ?thesis
    by (auto intro: fec_inv_set_pc [OF assms(1)])
next
  case (writes i p vs r1 r2 f alert)
  then have "(p, Got vs) \<in> set (fs_threads s)" by (metis nth_mem)
  then have vs: "fec_ok (length (fs_trace s)) vs"
    by (rule fec_invD(3) [OF assms(1)])
  have "1000 * (length (fs_trace s) + 1) < 2 ^ 64"
    using assms(3) writes by simp
  then have "fec_ok (length (fs_trace s) + 1) (map snd f)"
    using fec_iteration_ok [OF vs, of r1 r2] writes by auto
  then have "fec_inv (fec_write p f s)"
    by (rule fec_inv_write [OF assms(1)])
  with writes show ?thesis
    by (auto intro: fec_inv_set_pc)
next
  case (finishes i p)
  then show ?thesis by (auto intro: fec_inv_set_pc [OF assms(1)])
next
  case stops
  with assms(1) show ?thesis by (simp add: fec_inv_def)
qed

lemma fec_reach_inv:
  assumes "fec_reach get s" and "1000 * length (fs_trace s) < 2 ^ 64"
  shows "fec_inv s"
  using assms
proof (induction rule: fec_reach.induct)
  case start
  then show ?case by (simp add: fec_inv_def fec_init_def)
next
  case (step s s')
  have "fec_inv s"
    using step.IH step.prems fec_step_trace [OF step.hyps(2)] by simp
  then show ?case by (rule fec_inv_step [OF _ step.hyps(2) step.prems])
qed

text \<open>The values a monitor holds can always be processed.\<close>

lemma got_updates:
  assumes "fec_reach get s" and "1000 * (length (fs_trace s) + 1) < 2 ^ 64"
    and "(p, Got vs) \<in> set (fs_threads s)"
  shows "\<exists>f alert. fec_iteration r1 r2 vs = Fec_update f alert"
proof -
  have "1000 * length (fs_trace s) < 2 ^ 64" using assms(2) by simp
  from fec_invD(3) [OF fec_reach_inv [OF assms(1) this] assms(3)]
  show ?thesis using fec_iteration_ok [OF _ assms(2)] by blast
qed

end

text \<open>With one monitor per port, the values a thread holds are the ones in the table.\<close>

definition fec_current :: "(tbl_cmd list \<Rightarrow> string \<Rightarrow> string list) \<Rightarrow> fec_sys \<Rightarrow> bool" where
  "fec_current get s \<longleftrightarrow> (\<forall>p vs. (p, Got vs) \<in> set (fs_threads s) \<longrightarrow> vs = get (fs_trace s) p)"

lemma fec_step_ports: "fec_step get s s' \<Longrightarrow> \<exists>ps. map fst (fs_threads s') = map fst (fs_threads s) @ ps"
  by (erule fec_step_elim) (auto simp: update_ports)

lemma distinct_thread:
  assumes "distinct (map fst ths)" and "i < length ths" and "ths ! i = (p, c)"
    and "(p, d) \<in> set (ths[i := (p, e)])"
  shows "d = e"
proof -
  have "map fst (ths[i := (p, e)]) = map fst ths"
    by (rule update_ports [OF assms(2,3)])
  with assms(1) have "distinct (map fst (ths[i := (p, e)]))" by simp
  moreover have "(p, e) \<in> set (ths[i := (p, e)])"
    using assms(2) by (rule set_update_memI)
  ultimately show ?thesis
    using assms(4) by (metis eq_key_imp_eq_value)
qed

context table_reads
begin

lemma fec_current_step:
  assumes "fec_current get s" and "fec_step get s s'"
    and "distinct (map fst (fs_threads s'))"
  shows "fec_current get s'"
proof -
  note gets = get_set get_other
  from assms(2) show ?thesis
  proof (cases rule: fec_step_elim)
    case (configured p)
    then have new: "q \<noteq> p" if "(q, c) \<in> set (fs_threads s)" for q c
      using assms(3) that by (auto simp: rev_image_eqI)
    have "vs = get (fs_trace s') q" if "(q, Got vs) \<in> set (fs_threads s)" for q vs
      using configured assms(1) new [OF that] that unfolding fec_current_def by (simp add: gets)
    with configured show ?thesis
      unfolding fec_current_def by auto
  next
    case (other_table c)
    with assms(1) show ?thesis unfolding fec_current_def by (auto simp: gets)
  next
    case (enters i p)
    then show ?thesis
      using assms(1) thread_update_cases [of _ _ "fs_threads s" i] unfolding fec_current_def by fastforce
  next
    case (reads i p)
    then show ?thesis
      using assms(1) thread_update_cases [of _ _ "fs_threads s" i] unfolding fec_current_def by fastforce
  next
    case (writes i p vs r1 r2 f alert)
    have old: "(q, Got ws) \<in> set (fs_threads s)" and ne: "q \<noteq> p"
      if "(q, Got ws) \<in> set ((fs_threads s)[i := (p, Top)])" for q ws
    proof -
      show "(q, Got ws) \<in> set (fs_threads s)"
        using thread_update_cases [OF that writes(2)] by auto
      show "q \<noteq> p"
      proof
        assume "q = p"
        with that have "Got ws = Top"
          using distinct_thread [OF _ writes(2,3)] assms(3) writes(1) by auto
        then show False by simp
      qed
    qed
    have "ws = get (fs_trace s') q" if "(q, Got ws) \<in> set ((fs_threads s)[i := (p, Top)])" for q ws
      using writes(1) assms(1) old [OF that] ne [OF that] unfolding fec_current_def by (simp add: gets)
    with writes show ?thesis
      unfolding fec_current_def by simp
  next
    case (finishes i p)
    then show ?thesis
      using assms(1) thread_update_cases [of _ _ "fs_threads s" i] unfolding fec_current_def by fastforce
  next
    case stops
    with assms(1) show ?thesis by (simp add: fec_current_def)
  qed
qed

lemma fec_reach_current:
  assumes "fec_reach get s" and "distinct (map fst (fs_threads s))"
  shows "fec_current get s"
  using assms
proof (induction rule: fec_reach.induct)
  case start
  then show ?case by (simp add: fec_current_def fec_init_def)
next
  case (step s s')
  obtain ps where "map fst (fs_threads s') = map fst (fs_threads s) @ ps"
    using fec_step_ports [OF step.hyps(2)] by blast
  with step.prems step.IH have "fec_current get s" by simp
  then show ?case by (rule fec_current_step [OF _ step.hyps(2) step.prems])
qed

end

section \<open>Rates\<close>

lemma ber_threshold_below: "ber_threshold < 1 / 2 ^ 39"
  by code_simp

lemma double_ratio_0 [simp]: "double_ratio 0 b = 0"
  by (simp add: double_ratio_def)

lemma double_ratio_above_threshold:
  assumes "0 < a" and "0 < b" and "b \<le> 2 ^ 39"
  shows "ber_threshold < double_ratio a b"
proof -
  have b: "rnd64 (of_nat b) = of_nat b"
    using assms(3) by (intro double.rnd_nat) simp
  have "(of_nat b :: rat) \<le> of_nat (2 ^ 39)"
    using assms(3) by (simp only: of_nat_le_iff)
  then have "(1 :: rat) / 2 ^ 39 \<le> 1 / of_nat b"
    using assms(2) by (intro divide_left_mono) simp_all
  also have "\<dots> \<le> rnd64 (of_nat a) / rnd64 (of_nat b)"
    using double.rnd_nat_pos [OF assms(1)] assms(2) by (simp add: b divide_right_mono)
  finally have "rnd64 (1 / 2 ^ 39) \<le> double_ratio a b"
    unfolding double_ratio_def by (rule rnd64_mono)
  moreover have "rnd64 (1 / 2 ^ 39) = 1 / 2 ^ 39"
    by code_simp
  ultimately show ?thesis using ber_threshold_below by simp
qed

lemma double_ratio_tiny_text:
  assumes "2 ^ 21 * a \<le> b" and "0 < b" and "b \<le> 2 ^ 53"
  shows "to_string_double (double_ratio a b) = ''0.000000''"
proof -
  have a: "rnd64 (of_nat a) = of_nat a" and b: "rnd64 (of_nat b) = of_nat b"
    using assms by (intro double.rnd_nat; simp)+
  have "(of_nat (2 ^ 21 * a) :: rat) \<le> of_nat b"
    using assms(1) by (simp only: of_nat_le_iff)
  then have "(of_nat a :: rat) / of_nat b \<le> 1 / 2 ^ 21"
    using assms(2) by (simp add: divide_le_eq le_divide_eq mult.commute)
  then have "double_ratio a b \<le> rnd64 (1 / 2 ^ 21)"
    unfolding double_ratio_def a b by (rule rnd64_mono)
  also have "rnd64 (1 / 2 ^ 21) = 1 / 2 ^ 21"
    by code_simp
  finally have "double_ratio a b * 1000000 < 1 / 2" by simp
  moreover have "0 \<le> double_ratio a b * 1000000"
    using rnd64_nonneg by (simp add: double_ratio_def)
  ultimately have "round_half_even (double_ratio a b * 1000000) = 0"
    by (simp add: round_half_even_def Let_def floor_eq_iff [of _ 0, THEN iffD2])
  then show ?thesis
    by (simp add: to_string_double_def pad6_def text_eval)
qed

section \<open>Examples\<close>

text \<open>One port with a monitor, then two monitors of the same port.\<close>

definition fec_ex1 :: fec_sys where
  "fec_ex1 = (fec_write ''Ethernet0'' fec_zero_fvs fec_init)\<lparr>fs_threads := [(''Ethernet0'', Top)]\<rparr>"

definition fec_ex1_read :: fec_sys where
  "fec_ex1_read = set_pc 0 (Got (map snd fec_zero_fvs)) fec_ex1"

definition fec_ex2 :: fec_sys where
  "fec_ex2 = (fec_write ''Ethernet0'' fec_zero_fvs fec_ex1)
     \<lparr>fs_threads := [(''Ethernet0'', Top), (''Ethernet0'', Top)]\<rparr>"

lemmas fec_ex_defs = fec_ex1_def fec_ex1_read_def fec_ex2_def fec_init_def

lemma fec_reach_ex1: "fec_reach fec_get fec_ex1"
proof -
  have "fec_step fec_get fec_init
      ((fec_write ''Ethernet0'' fec_zero_fvs fec_init)\<lparr>fs_threads := fs_threads fec_init @ [(''Ethernet0'', Top)]\<rparr>)"
    by (rule fec_step.configured)
  then have "fec_step fec_get fec_init fec_ex1"
    by (simp add: fec_ex_defs)
  then show ?thesis by (rule fec_reach.step [OF fec_reach.start])
qed

lemma fec_reach_ex1_read: "fec_reach fec_get fec_ex1_read"
proof -
  let ?s = "set_pc 0 Entered fec_ex1"
  have "fec_step fec_get fec_ex1 ?s"
    by (rule fec_step.enters) (simp_all add: fec_ex_defs)
  then have "fec_reach fec_get ?s" by (rule fec_reach.step [OF fec_reach_ex1])
  moreover have "fec_step fec_get ?s (set_pc 0 (Got (fec_get (fs_trace ?s) ''Ethernet0'')) ?s)"
    by (rule fec_step.reads) (simp_all add: fec_ex_defs)
  then have "fec_step fec_get ?s fec_ex1_read"
    by (simp add: fec_ex_defs fec_get_def entry_def set_pc_def)
  ultimately show ?thesis by (rule fec_reach.step)
qed

lemma fec_ex_iteration:
  "fec_iteration 3 7 (map snd fec_zero_fvs) =
     Fec_update (fec_fvs 3 0 1000 (pre_fec_ber 3 0 1000) (post_fec_ber 0 1000)) False"
proof -
  have "fec_iteration 3 7 [to_string (0 :: 64 word), to_string (0 :: 64 word), to_string (0 :: 64 word), ''0.0'', ''0.0''] =
     Fec_update (fec_fvs 3 0 1000 (pre_fec_ber 3 0 1000) (post_fec_ber 0 1000)) (ber_threshold < post_fec_ber 0 1000)"
    by (subst fec_iteration_values) (simp_all add: fec_corrected_def fec_uncorrected_def)
  moreover have "to_string (0 :: 64 word) = ''0''" by (simp add: text_eval)
  moreover have "\<not> ber_threshold < post_fec_ber 0 1000"
    using rnd64_nonneg by (simp add: post_fec_ber_def ber_threshold_def not_less)
  ultimately show ?thesis by (simp add: fec_zero_fvs_def)
qed

section \<open>Properties\<close>

text \<open>
  Property C5: whatever the interleaving of the configuration thread with any number of
  monitors, every published FEC entry is consistent: five values, of which the corrected
  and uncorrected codewords add up to at most the total, and the total is at most 1000 per
  table command so far (for as long as that bound fits 64 bits).
\<close>

theorem fec_counters_consistent:
  assumes "table_reads get" and "fec_reach get s" and "1000 * length (fs_trace s) < 2 ^ 64"
    and "fec_entry (fs_trace s) p = Some f"
  shows "\<exists>(c :: 64 word) (u :: 64 word) (t :: 64 word) x y.
    map snd f = [to_string c, to_string u, to_string t, x, y] \<and>
    unat c + unat u \<le> unat t \<and> unat t \<le> 1000 * length (fs_trace s)"
  using fec_invD(1) [OF table_reads.fec_reach_inv [OF assms(1-3)] assms(4)] unfolding fec_ok_def .

theorem fec_counters_consistent_witness:
  "\<exists>(c :: 64 word) (u :: 64 word) (t :: 64 word) x y.
    map snd fec_zero_fvs = [to_string c, to_string u, to_string t, x, y] \<and>
    unat c + unat u \<le> unat t \<and> unat t \<le> 1000 * length (fs_trace fec_ex1)"
  by (rule fec_counters_consistent [OF fec_table.table_reads_axioms fec_reach_ex1, of "''Ethernet0''"])
    (simp_all add: fec_ex_defs entry_def)

text \<open>
  Property C15: no interleaving makes a monitor crash: the values a thread has read always
  parse, so the iteration neither throws from \<open>std::stoull\<close> (which would terminate the
  daemon) nor reads past the vector nor divides by zero.
\<close>

theorem fec_monitor_safe:
  assumes "table_reads get" and "fec_reach get s" and "1000 * (length (fs_trace s) + 1) < 2 ^ 64"
    and "(p, Got vs) \<in> set (fs_threads s)"
  shows "\<exists>f alert. fec_iteration r1 r2 vs = Fec_update f alert"
  by (rule table_reads.got_updates [OF assms])

theorem fec_monitor_safe_witness:
  "\<exists>f alert. fec_iteration 12 200 (map snd fec_zero_fvs) = Fec_update f alert"
  by (rule fec_monitor_safe [OF fec_table.table_reads_axioms fec_reach_ex1_read, of "''Ethernet0''"])
    (simp_all add: fec_ex_defs entry_def)

text \<open>
  As long as every port has one monitor, updates are not lost: each change of
  the entry of a monitored port is one iteration applied to the entry itself.
\<close>

theorem fec_updates_serial:
  assumes "table_reads get" and "fec_reach get s" and "fec_step get s s'"
    and "distinct (map fst (fs_threads s'))" and "p \<in> fst ` set (fs_threads s)"
    and "fec_entry (fs_trace s) p = Some f" and "fec_entry (fs_trace s') p = Some f'"
  shows "f' = f \<or> (\<exists>r1 r2 alert. fec_iteration r1 r2 (map snd f) = Fec_update f' alert)"
proof -
  obtain ps where "map fst (fs_threads s') = map fst (fs_threads s) @ ps"
    using fec_step_ports [OF assms(3)] by blast
  with assms(4) have "distinct (map fst (fs_threads s))" by simp
  from table_reads.fec_reach_current [OF assms(1,2) this] have cur: "fec_current get s" .
  from assms(3) show ?thesis
  proof (cases rule: fec_step_elim)
    case (configured q)
    with assms(4,5) have "q \<noteq> p" by auto
    with configured assms(6,7) show ?thesis by simp
  next
    case (other_table c)
    then have "fec_entry (fs_trace s') p = fec_entry (fs_trace s) p"
      by (simp add: fec_entry_other del: entry_append)
    with assms(6,7) show ?thesis by simp
  next
    case (writes i q vs r1 r2 g alert)
    then have "(q, Got vs) \<in> set (fs_threads s)" by (metis nth_mem)
    with cur have vs: "vs = get (fs_trace s) q" by (simp add: fec_current_def)
    show ?thesis
    proof (cases "q = p")
      case True
      then have "vs = map snd f"
        using vs table_reads.entry_read [OF assms(1,6)] by simp
      with writes True assms(7) show ?thesis by auto
    next
      case False
      with writes assms(6,7) show ?thesis by simp
    qed
  qed (use assms(6,7) in simp_all)
qed

theorem fec_updates_serial_witness:
  "fec_fvs 3 0 1000 (pre_fec_ber 3 0 1000) (post_fec_ber 0 1000) = fec_zero_fvs \<or>
   (\<exists>r1 r2 alert. fec_iteration r1 r2 (map snd fec_zero_fvs) =
      Fec_update (fec_fvs 3 0 1000 (pre_fec_ber 3 0 1000) (post_fec_ber 0 1000)) alert)"
proof (rule fec_updates_serial [OF fec_table.table_reads_axioms fec_reach_ex1_read, where p = "''Ethernet0''"])
  show "fec_step fec_get fec_ex1_read (set_pc 0 Top (fec_write ''Ethernet0''
      (fec_fvs 3 0 1000 (pre_fec_ber 3 0 1000) (post_fec_ber 0 1000)) fec_ex1_read))"
    by (rule fec_step.writes [OF _ _ fec_ex_iteration]) (simp_all add: fec_ex_defs entry_def)
qed (simp_all add: fec_ex_defs entry_def)

text \<open>
  Property C14: two monitors of one port lose updates: from any state where two threads of
  the port are at the top of their loops, both can complete an iteration, with two table
  writes, after which the entry holds the result of the second applied to the old values.
\<close>

theorem fec_lost_update:
  assumes "table_reads get" and "i < length (fs_threads s)" and "j < length (fs_threads s)" and "i \<noteq> j"
    and "fs_threads s ! i = (p, Top)" and "fs_threads s ! j = (p, Top)" and "fs_running s"
    and "fec_entry (fs_trace s) p = Some f"
    and "fec_iteration r1 r2 (map snd f) = Fec_update f1 a1"
    and "fec_iteration r3 r4 (map snd f) = Fec_update f2 a2"
  shows "\<exists>s'. (fec_step get)\<^sup>*\<^sup>* s s' \<and> fs_threads s' = fs_threads s \<and>
    length (fs_trace s') = length (fs_trace s) + 2 \<and> fec_entry (fs_trace s') p = Some f2"
proof -
  have v: "get (fs_trace s) p = map snd f"
    by (rule table_reads.entry_read [OF assms(1,8)])
  define s1 where "s1 = set_pc i (Got (map snd f)) s"
  define s2 where "s2 = set_pc j (Got (map snd f)) s1"
  define s3 where "s3 = set_pc i Top (fec_write p f1 s2)"
  define s4 where "s4 = set_pc j Top (fec_write p f2 s3)"
  have "(fec_step get)\<^sup>*\<^sup>* s s1"
    using enters_and_reads [OF assms(2,5,7), of get] by (simp add: s1_def v)
  also have "(fec_step get)\<^sup>*\<^sup>* s1 s2"
    using enters_and_reads [of j s1 p get] assms by (simp add: s1_def s2_def v)
  also have "fec_step get s2 s3"
    unfolding s3_def using assms by (intro fec_step.writes [OF _ _ assms(9)]) (simp_all add: s2_def s1_def)
  also have "fec_step get s3 s4"
    unfolding s4_def using assms
    by (intro fec_step.writes [OF _ _ assms(10)]) (simp_all add: s3_def s2_def s1_def)
  finally have "(fec_step get)\<^sup>*\<^sup>* s s4" .
  moreover have "fs_threads s4 = fs_threads s"
    using assms(2-6) by (auto simp: s4_def s3_def s2_def s1_def list_eq_iff_nth_eq nth_list_update)
  moreover have "length (fs_trace s4) = length (fs_trace s) + 2" and "fec_entry (fs_trace s4) p = Some f2"
    by (simp_all add: s4_def s3_def s2_def s1_def)
  ultimately show ?thesis by blast
qed

theorem fec_lost_update_witness:
  "\<exists>s'. (fec_step fec_get)\<^sup>*\<^sup>* fec_ex2 s' \<and> fs_threads s' = fs_threads fec_ex2 \<and>
    length (fs_trace s') = length (fs_trace fec_ex2) + 2 \<and>
    fec_entry (fs_trace s') ''Ethernet0'' =
      Some (fec_fvs 3 0 1000 (pre_fec_ber 3 0 1000) (post_fec_ber 0 1000))"
  by (rule fec_lost_update [OF fec_table.table_reads_axioms, where i = 0 and j = 1,
        OF _ _ _ _ _ _ _ fec_ex_iteration fec_ex_iteration])
    (simp_all add: fec_ex_defs entry_def)

text \<open>
  Property C34: for the first \<open>2^39\<close> codewords the alert is not a rate threshold: an
  iteration warns exactly when any codeword was ever uncorrected; and while that is at most
  one in \<open>2^21\<close>, the rate it publishes next to the warning reads \<open>0.000000\<close>.
\<close>

theorem fec_alert_and_text:
  fixes c u t :: "64 word"
  assumes "fec_iteration r1 r2 [to_string c, to_string u, to_string t, x, y] = Fec_update f alert"
    and "unat t + 1000 \<le> 2 ^ 39"
  shows "(alert \<longleftrightarrow> fec_uncorrected r2 u \<noteq> 0) \<and>
    (2 ^ 21 * unat (fec_uncorrected r2 u) \<le> unat t + 1000 \<longrightarrow>
       map_of f ''post_fec_ber'' = Some ''0.000000'')"
proof -
  have t: "unat (t + 1000) = unat t + 1000"
    using assms(2) by (subst unat_add_no_wrap) simp_all
  then have "t + 1000 \<noteq> 0" by (metis add_is_0 unat_0 zero_neq_numeral)
  from assms(1) [unfolded fec_iteration_values [OF this]]
  have f: "map_of f ''post_fec_ber'' = Some (to_string_double (post_fec_ber (fec_uncorrected r2 u) (t + 1000)))"
    and a: "alert \<longleftrightarrow> ber_threshold < post_fec_ber (fec_uncorrected r2 u) (t + 1000)"
    by (auto simp: fec_fvs_def)
  have "\<not> ber_threshold < 0"
    using rnd64_nonneg by (simp add: ber_threshold_def not_less)
  with a have "alert \<longleftrightarrow> fec_uncorrected r2 u \<noteq> 0"
    using double_ratio_above_threshold [of "unat (fec_uncorrected r2 u)" "unat t + 1000"] assms(2)
    by (cases "fec_uncorrected r2 u = 0") (simp_all add: post_fec_ber_def t unat_gt_0)
  moreover have "to_string_double (post_fec_ber (fec_uncorrected r2 u) (t + 1000)) = ''0.000000''"
    if "2 ^ 21 * unat (fec_uncorrected r2 u) \<le> unat t + 1000"
    unfolding post_fec_ber_def t using that assms(2) by (intro double_ratio_tiny_text) simp_all
  ultimately show ?thesis using f by simp
qed

theorem fec_alert_and_text_witness:
  "ber_threshold < post_fec_ber 1 5000000 \<and>
   map_of (fec_fvs 9 1 5000000 (pre_fec_ber 9 1 5000000) (post_fec_ber 1 5000000)) ''post_fec_ber'' =
     Some ''0.000000''"
proof -
  have it: "fec_iteration 4 100 [to_string (5 :: 64 word), to_string (0 :: 64 word),
      to_string (4999000 :: 64 word), ''0.000001'', ''0.000000''] =
    Fec_update (fec_fvs 9 1 5000000 (pre_fec_ber 9 1 5000000) (post_fec_ber 1 5000000))
      (ber_threshold < post_fec_ber 1 5000000)"
    by (subst fec_iteration_values) (simp_all add: fec_uncorrected_def fec_corrected_def)
  show ?thesis
    using fec_alert_and_text [OF it] by (simp add: fec_uncorrected_def)
qed

text \<open>
  The rates an iteration computes from consistent counters are rates:
  \<open>0 \<le> post-FEC \<le> pre-FEC \<le> 1\<close> also after rounding to binary64.
\<close>

theorem fec_rates_ordered:
  fixes c u t :: "64 word"
  assumes "unat c + unat u \<le> unat t" and "0 < unat t"
  shows "0 \<le> post_fec_ber u t \<and> post_fec_ber u t \<le> pre_fec_ber c u t \<and> pre_fec_ber c u t \<le> 1"
proof -
  have cu: "unat (c + u) = unat c + unat u"
    using assms(1) unat_bound [of t] by (intro unat_add_no_wrap) simp
  show ?thesis
    unfolding post_fec_ber_def pre_fec_ber_def cu double_ratio_def
    using double.ratio_bounds [of "unat u" "unat t"] double.ratio_bounds [of "unat c + unat u" "unat t"]
      double.ratio_mono [of "unat u" "unat c + unat u" "unat t"] assms
    by simp
qed

theorem fec_rates_ordered_witness:
  "0 \<le> post_fec_ber 1 3000 \<and> post_fec_ber 1 3000 \<le> pre_fec_ber 20 1 3000 \<and> pre_fec_ber 20 1 3000 \<le> 1"
  by (rule fec_rates_ordered) simp_all

end
