(* ===== verification/Fec_Runs.thy ===== *)
theory Fec_Runs
  imports Fec_Monitor
begin

text \<open>
  Runs of the FEC monitors of \<open>ue_linkd.cpp\<close>: exact counts when every port has one monitor,
  progress of every monitor, and what still happens after \<open>stop\<close>.
\<close>

section \<open>Counting the writes of an entry\<close>

definition fec_writes :: "tbl_cmd list \<Rightarrow> string \<Rightarrow> nat" where
  "fec_writes tr p = length (filter (on_entry COUNTERS_DB ''UE_FEC_STATS_TABLE'' p) tr)"

lemma fec_writes_Nil [simp]: "fec_writes [] p = 0"
  by (simp add: fec_writes_def)

lemma fec_writes_snoc [simp]:
  "fec_writes (tr @ [c]) p = fec_writes tr p + (if on_entry COUNTERS_DB ''UE_FEC_STATS_TABLE'' p c then 1 else 0)"
  by (simp add: fec_writes_def)

lemma fec_writes_le: "fec_writes tr p \<le> length tr"
  by (simp add: fec_writes_def)

text \<open>The five values of an entry after \<open>n\<close> iterations.\<close>

definition fec_counted :: "nat \<Rightarrow> string list \<Rightarrow> bool" where
  "fec_counted n vs \<longleftrightarrow>
     (\<exists>(c :: 64 word) (u :: 64 word) (t :: 64 word) x y.
        vs = [to_string c, to_string u, to_string t, x, y] \<and>
        unat t = 1000 * n \<and> unat c \<le> 9 * n \<and> unat u \<le> n)"

lemma fec_counted_zero: "fec_counted 0 (map snd fec_zero_fvs)"
  unfolding fec_counted_def fec_zero_fvs_def
  by (intro exI [of _ "0 :: 64 word"]) (simp add: text_eval)

lemma unat_corrected: "unat (fec_corrected r1 c) \<le> unat c + 9"
proof -
  have "unat (of_nat (r1 mod 10) :: 64 word) \<le> 9"
    using mod_less_divisor [of 10 r1] by (simp add: unat_of_nat take_bit_nat_eq_self)
  moreover have "unat (c + of_nat (r1 mod 10)) \<le> unat c + unat (of_nat (r1 mod 10) :: 64 word)"
    by (simp add: unat_word_ariths)
  ultimately show ?thesis unfolding fec_corrected_def by linarith
qed

lemma fec_counted_iteration:
  assumes "fec_counted n vs" and "1000 * (n + 1) < 2 ^ 64" and "fec_iteration r1 r2 vs = Fec_update f alert"
  shows "fec_counted (n + 1) (map snd f)"
proof -
  obtain c u t :: "64 word" and x y where vs: "vs = [to_string c, to_string u, to_string t, x, y]"
      and t: "unat t = 1000 * n" and c: "unat c \<le> 9 * n" and u: "unat u \<le> n"
    using assms(1) unfolding fec_counted_def by blast
  have "unat c + unat u \<le> unat t" and "unat t + 1000 < 2 ^ 64" using t c u assms(2) by simp_all
  note bounds = fec_counter_bounds [OF this]
  have "t + 1000 \<noteq> 0" using bounds(1) by force
  from fec_iteration_values [OF this, of r1 r2 c u x y] assms(3)
  have f: "f = fec_fvs (fec_corrected r1 c) (fec_uncorrected r2 u) (t + 1000)
      (pre_fec_ber (fec_corrected r1 c) (fec_uncorrected r2 u) (t + 1000))
      (post_fec_ber (fec_uncorrected r2 u) (t + 1000))"
    by (simp add: vs)
  have "unat (t + 1000) = 1000 * (n + 1)" using bounds(1) t by simp
  moreover have "unat (fec_corrected r1 c) \<le> 9 * (n + 1)" using unat_corrected [of r1 c] c by simp
  moreover have "unat (fec_uncorrected r2 u) \<le> n + 1" using bounds(4) [of r2] u by simp
  ultimately show ?thesis unfolding f fec_counted_def fec_fvs_def by auto
qed

section \<open>One monitor per port\<close>

text \<open>A port has an entry exactly when it has a monitor, and the entry counts the writes.\<close>

definition fec_exact :: "fec_sys \<Rightarrow> bool" where
  "fec_exact s \<longleftrightarrow>
     (\<forall>p. if p \<in> fst ` set (fs_threads s)
          then \<exists>n f. fec_writes (fs_trace s) p = Suc n \<and> fec_entry (fs_trace s) p = Some f \<and>
                 fec_counted n (map snd f)
          else fec_writes (fs_trace s) p = 0)"

lemma fec_exactD:
  assumes "fec_exact s"
  shows "p \<in> fst ` set (fs_threads s) \<Longrightarrow>
      \<exists>n f. fec_writes (fs_trace s) p = Suc n \<and> fec_entry (fs_trace s) p = Some f \<and> fec_counted n (map snd f)"
    and "p \<notin> fst ` set (fs_threads s) \<Longrightarrow> fec_writes (fs_trace s) p = 0"
  using assms unfolding fec_exact_def by metis+

lemma fec_exact_cong:
  "fec_exact s \<Longrightarrow> (\<And>p. fec_writes (fs_trace s') p = fec_writes (fs_trace s) p) \<Longrightarrow>
   (\<And>p. fec_entry (fs_trace s') p = fec_entry (fs_trace s) p) \<Longrightarrow>
   fst ` set (fs_threads s') = fst ` set (fs_threads s) \<Longrightarrow> fec_exact s'"
  by (simp only: fec_exact_def)

lemma thread_ports: "i < length ths \<Longrightarrow> ths ! i = (p, c) \<Longrightarrow> fst ` set (ths[i := (p, d)]) = fst ` set ths"
  using update_ports [of i ths p c d] by (metis set_map)

context table_reads
begin

lemma fec_exact_step:
  assumes "fec_exact s" and "fec_current get s" and "fec_step get s s'"
    and "distinct (map fst (fs_threads s'))" and "1000 * length (fs_trace s') < 2 ^ 64"
  shows "fec_exact s'"
  using assms(3)
proof (cases rule: fec_step_elim)
  case (configured p)
  with assms(4) have "p \<notin> fst ` set (fs_threads s)" by auto
  then have "fec_writes (fs_trace s) p = 0" by (rule fec_exactD(2) [OF assms(1)])
  with configured fec_exactD [OF assms(1)] fec_counted_zero show ?thesis
    unfolding fec_exact_def by (auto split: if_splits)
next
  case (other_table c)
  then show ?thesis
    by (intro fec_exact_cong [OF assms(1)]) (simp_all add: fec_entry_other del: entry_append)
next
  case (enters i p)
  then show ?thesis by (intro fec_exact_cong [OF assms(1)]) (simp_all add: thread_ports)
next
  case (reads i p)
  then show ?thesis by (intro fec_exact_cong [OF assms(1)]) (simp_all add: thread_ports)
next
  case (writes i p vs r1 r2 f alert)
  then have mem: "(p, Got vs) \<in> set (fs_threads s)" by (metis nth_mem)
  then have "p \<in> fst ` set (fs_threads s)" by force
  then obtain n g where n: "fec_writes (fs_trace s) p = Suc n"
      and g: "fec_entry (fs_trace s) p = Some g" "fec_counted n (map snd g)"
    using fec_exactD(1) [OF assms(1)] by blast
  have "vs = map snd g"
    using assms(2) mem entry_read [OF g(1)] by (simp add: fec_current_def)
  moreover have "1000 * (n + 1) < 2 ^ 64"
    using assms(5) writes(1) n fec_writes_le [of "fs_trace s" p] by simp
  ultimately have "fec_counted (Suc n) (map snd f)"
    using fec_counted_iteration [OF g(2) _, of r1 r2 f alert] writes(4) by simp
  moreover have "fst ` set (fs_threads s') = fst ` set (fs_threads s)"
    using writes by (simp add: thread_ports)
  ultimately show ?thesis
    using fec_exactD [OF assms(1)] writes(1) n unfolding fec_exact_def by auto
next
  case (finishes i p)
  then show ?thesis by (intro fec_exact_cong [OF assms(1)]) (simp_all add: thread_ports)
next
  case stops
  then show ?thesis by (intro fec_exact_cong [OF assms(1)]) simp_all
qed

lemma fec_reach_exact:
  assumes "fec_reach get s" and "distinct (map fst (fs_threads s))" and "1000 * length (fs_trace s) < 2 ^ 64"
  shows "fec_exact s"
  using assms
proof (induction rule: fec_reach.induct)
  case start
  then show ?case by (simp add: fec_exact_def fec_init_def)
next
  case (step s s')
  obtain ps where "map fst (fs_threads s') = map fst (fs_threads s) @ ps"
    using fec_step_ports [OF step.hyps(2)] by blast
  with step.prems(1) have distinct: "distinct (map fst (fs_threads s))" by simp
  moreover have "1000 * length (fs_trace s) < 2 ^ 64"
    using step.prems(2) fec_step_trace [OF step.hyps(2)] by simp
  ultimately have "fec_exact s" by (rule step.IH)
  then show ?case
    by (rule fec_exact_step [OF _ fec_reach_current [OF step.hyps(1) distinct] step.hyps(2) step.prems])
qed

end

section \<open>Progress and shutdown\<close>

context table_reads
begin

lemma monitor_writes:
  assumes "fec_reach get s" and "1000 * (length (fs_trace s) + 1) < 2 ^ 64"
    and "i < length (fs_threads s)" and "fs_threads s ! i = (p, Got vs)"
  shows "\<exists>s' f. fec_step get s s' \<and> fs_running s' = fs_running s \<and> fs_threads s' = (fs_threads s)[i := (p, Top)] \<and>
    fs_trace s' = fs_trace s @ [Tbl_set COUNTERS_DB ''UE_FEC_STATS_TABLE'' p f]"
proof -
  have "(p, Got vs) \<in> set (fs_threads s)" using assms(3,4) by (metis nth_mem)
  from got_updates [OF assms(1,2) this] obtain f alert where "fec_iteration 0 0 vs = Fec_update f alert" by blast
  from fec_step.writes [OF assms(3,4) this] show ?thesis
    using assms(3,4) by (intro exI [of _ "set_pc i Top (fec_write p f s)"] exI [of _ f]) simp
qed

text \<open>From inside the loop, and from its top while the daemon runs, a monitor completes an iteration.\<close>

lemma monitor_reads:
  assumes "i < length (fs_threads s)" and "fs_threads s ! i = (p, c)" and "c = Entered \<or> (c = Top \<and> fs_running s)"
  shows "\<exists>s1. (fec_step get)\<^sup>*\<^sup>* s s1 \<and> fs_running s1 = fs_running s \<and> fs_trace s1 = fs_trace s \<and>
    fs_threads s1 = (fs_threads s)[i := (p, Got (get (fs_trace s) p))]"
proof -
  let ?s = "set_pc i (Got (get (fs_trace s) p)) s"
  have "(fec_step get)\<^sup>*\<^sup>* s ?s"
    using assms enters_and_reads [of i s p get] fec_step.reads [of i s p get] by blast
  then show ?thesis using assms(2) by (intro exI [of _ ?s]) simp
qed

lemma fec_reach_steps: "(fec_step get)\<^sup>*\<^sup>* s s' \<Longrightarrow> fec_reach get s \<Longrightarrow> fec_reach get s'"
  by (induction rule: rtranclp_induct) (auto intro: fec_reach.step)

lemma monitor_iterates:
  assumes "fec_reach get s" and "1000 * (length (fs_trace s) + 1) < 2 ^ 64"
    and "i < length (fs_threads s)" and "fs_threads s ! i = (p, c)"
    and "c = Entered \<or> (\<exists>vs. c = Got vs) \<or> (c = Top \<and> fs_running s)"
  shows "\<exists>s' f. (fec_step get)\<^sup>*\<^sup>* s s' \<and> fs_running s' = fs_running s \<and> fs_threads s' = (fs_threads s)[i := (p, Top)] \<and>
    fs_trace s' = fs_trace s @ [Tbl_set COUNTERS_DB ''UE_FEC_STATS_TABLE'' p f]"
proof (cases "\<exists>vs. c = Got vs")
  case True
  then obtain vs where "c = Got vs" by blast
  with monitor_writes [OF assms(1-3), of p vs] assms(4) show ?thesis by (auto intro: r_into_rtranclp)
next
  case False
  then obtain s1 where s1: "(fec_step get)\<^sup>*\<^sup>* s s1" "fs_running s1 = fs_running s" "fs_trace s1 = fs_trace s"
      "fs_threads s1 = (fs_threads s)[i := (p, Got (get (fs_trace s) p))]"
    using monitor_reads [OF assms(3,4)] assms(5) by blast
  have i: "i < length (fs_threads s1)" "fs_threads s1 ! i = (p, Got (get (fs_trace s) p))"
    using assms(3) by (simp_all add: s1(4))
  have "1000 * (length (fs_trace s1) + 1) < 2 ^ 64" using assms(2) by (simp add: s1(3))
  from monitor_writes [OF fec_reach_steps [OF s1(1) assms(1)] this i] obtain s2 f where
    2: "fec_step get s1 s2" "fs_running s2 = fs_running s1" "fs_threads s2 = (fs_threads s1)[i := (p, Top)]"
      "fs_trace s2 = fs_trace s1 @ [Tbl_set COUNTERS_DB ''UE_FEC_STATS_TABLE'' p f]" by blast
  have "(fec_step get)\<^sup>*\<^sup>* s s2" using s1(1) 2(1) by (rule rtranclp.rtrancl_into_rtrancl)
  then show ?thesis using 2 s1 by auto
qed

end

text \<open>
  After \<open>stop\<close>, a monitor has few steps left: the iteration it is in goes on to its write, also
  if the table has not been read yet, but the loop is not entered again.
\<close>

fun steps_left :: "fec_pc \<Rightarrow> nat" where
  "steps_left Entered = 3"
| "steps_left (Got vs) = 2"
| "steps_left Top = 1"
| "steps_left Finished = 0"

lemma step_winds_down:
  assumes "fec_step get s s'" and "\<not> fs_running s" and "i < length (fs_threads s)" and "fs_threads s ! i = (p, c)"
  shows "\<not> fs_running s' \<and> i < length (fs_threads s') \<and>
    (\<exists>d. fs_threads s' ! i = (p, d) \<and> (d = c \<or> steps_left d < steps_left c))"
  using assms(1)
proof (cases rule: fec_step_elim)
  case (reads j q)
  with assms show ?thesis by (cases "i = j") auto
next
  case (writes j q vs r1 r2 f alert)
  with assms show ?thesis by (cases "i = j") auto
next
  case (finishes j q)
  with assms show ?thesis by (cases "i = j") auto
qed (use assms in \<open>auto simp: nth_append\<close>)

text \<open>The steps of thread \<open>i\<close> among the first \<open>n\<close> of a run.\<close>

definition own_steps :: "nat \<Rightarrow> (nat \<Rightarrow> fec_sys) \<Rightarrow> nat \<Rightarrow> nat set" where
  "own_steps i run n = {k. k < n \<and> fs_threads (run k) ! i \<noteq> fs_threads (run (Suc k)) ! i}"

lemma own_steps_Suc:
  "own_steps i run (Suc n) =
     (if fs_threads (run n) ! i \<noteq> fs_threads (run (Suc n)) ! i then insert n (own_steps i run n) else own_steps i run n)"
  by (auto simp: own_steps_def less_Suc_eq)

lemma run_winds_down:
  assumes "\<And>k. k < n \<Longrightarrow> fec_step get (run k) (run (Suc k))"
    and "\<not> fs_running (run 0)" and "i < length (fs_threads (run 0))" and "fs_threads (run 0) ! i = (p, c)"
  shows "\<not> fs_running (run n) \<and> i < length (fs_threads (run n)) \<and>
    (\<exists>d. fs_threads (run n) ! i = (p, d) \<and> card (own_steps i run n) + steps_left d \<le> steps_left c)"
  using assms(1)
proof (induction n)
  case 0
  with assms(2-4) show ?case by (simp add: own_steps_def)
next
  case (Suc n)
  then obtain d where d: "\<not> fs_running (run n)" "i < length (fs_threads (run n))" "fs_threads (run n) ! i = (p, d)"
    "card (own_steps i run n) + steps_left d \<le> steps_left c" by auto
  have "fec_step get (run n) (run (Suc n))" using Suc.prems by simp
  from step_winds_down [OF this d(1-3)] obtain d' where
    d': "\<not> fs_running (run (Suc n))" "i < length (fs_threads (run (Suc n)))" "fs_threads (run (Suc n)) ! i = (p, d')"
      "d' = d \<or> steps_left d' < steps_left d" by blast
  have "finite (own_steps i run n)" and "n \<notin> own_steps i run n" by (simp_all add: own_steps_def)
  with d d' show ?case by (auto simp: own_steps_Suc)
qed

section \<open>Properties\<close>

text \<open>
  Property C13: with one monitor per port the counters are exact, whatever the interleaving: after
  \<open>n\<close> updates of the zeroed entry its total is \<open>1000 n\<close> codewords, with at most \<open>9 n\<close> corrected
  and \<open>n\<close> uncorrected ones, so no update is lost and none is counted twice.
\<close>

theorem fec_totals_exact:
  assumes "table_reads get" and "fec_reach get s" and "distinct (map fst (fs_threads s))"
    and "1000 * length (fs_trace s) < 2 ^ 64" and "p \<in> fst ` set (fs_threads s)"
  shows "\<exists>n f (c :: 64 word) (u :: 64 word) (t :: 64 word) x y.
    fec_writes (fs_trace s) p = Suc n \<and> fec_entry (fs_trace s) p = Some f \<and>
    map snd f = [to_string c, to_string u, to_string t, x, y] \<and>
    unat t = 1000 * n \<and> unat c \<le> 9 * n \<and> unat u \<le> n"
  using fec_exactD(1) [OF table_reads.fec_reach_exact [OF assms(1-4)] assms(5)]
  unfolding fec_counted_def by (elim exE conjE) (intro exI conjI; assumption)

theorem fec_totals_exact_witness:
  "\<exists>n f (c :: 64 word) (u :: 64 word) (t :: 64 word) x y.
    fec_writes (fs_trace fec_ex1_read) ''Ethernet0'' = Suc n \<and>
    fec_entry (fs_trace fec_ex1_read) ''Ethernet0'' = Some f \<and>
    map snd f = [to_string c, to_string u, to_string t, x, y] \<and>
    unat t = 1000 * n \<and> unat c \<le> 9 * n \<and> unat u \<le> n"
  by (rule fec_totals_exact [OF fec_table.table_reads_axioms fec_reach_ex1_read]) (simp_all add: fec_ex_defs)

text \<open>
  Property C37: no monitor is ever stuck, and \<open>stop\<close> ends it soon. In every reachable state a
  monitor that has not ended can, by steps of its own, complete an iteration that writes its
  entry once, as long as the daemon runs; once it is stopped, the monitor can still end, and
  in every run from then on it takes at most one step if it is at the top of its loop, two if
  it holds values to write, and three if it had tested the flag but not yet read the table: it
  finishes the iteration it is in, a late read included, and enters no other.
\<close>

theorem fec_monitor_progress:
  assumes "table_reads get" and "fec_reach get s" and "1000 * (length (fs_trace s) + 1) < 2 ^ 64"
    and "i < length (fs_threads s)" and "fs_threads s ! i = (p, c)" and "c \<noteq> Finished"
  shows "(fs_running s \<longrightarrow> (\<exists>s' f. (fec_step get)\<^sup>*\<^sup>* s s' \<and> fs_threads s' = (fs_threads s)[i := (p, Top)] \<and>
      fs_trace s' = fs_trace s @ [Tbl_set COUNTERS_DB ''UE_FEC_STATS_TABLE'' p f])) \<and>
    (\<not> fs_running s \<longrightarrow>
      (\<exists>s'. (fec_step get)\<^sup>*\<^sup>* s s' \<and> fs_threads s' = (fs_threads s)[i := (p, Finished)]) \<and>
      (\<forall>run n. run 0 = s \<and> (\<forall>k < n. fec_step get (run k) (run (Suc k))) \<longrightarrow>
        card (own_steps i run n) \<le> (case c of Top \<Rightarrow> 1 | Entered \<Rightarrow> 3 | Got vs \<Rightarrow> 2 | Finished \<Rightarrow> 0)))"
proof (intro conjI impI allI)
  note iterates = table_reads.monitor_iterates [OF assms(1-5)]
  show "\<exists>s' f. (fec_step get)\<^sup>*\<^sup>* s s' \<and> fs_threads s' = (fs_threads s)[i := (p, Top)] \<and>
      fs_trace s' = fs_trace s @ [Tbl_set COUNTERS_DB ''UE_FEC_STATS_TABLE'' p f]" if "fs_running s"
    using iterates that assms(6) by (cases c) blast+
  show "\<exists>s'. (fec_step get)\<^sup>*\<^sup>* s s' \<and> fs_threads s' = (fs_threads s)[i := (p, Finished)]" if stop: "\<not> fs_running s"
  proof -
    obtain t where t: "(fec_step get)\<^sup>*\<^sup>* s t" "\<not> fs_running t" "fs_threads t = (fs_threads s)[i := (p, Top)]"
    proof (cases "c = Top")
      case True
      with assms(5) have "(fs_threads s)[i := (p, Top)] = fs_threads s" by (metis list_update_id)
      with that [of s] stop show ?thesis by simp
    next
      case False
      with iterates assms(6) stop that show ?thesis by (cases c) auto
    qed
    have "fec_step get t (set_pc i Finished t)"
      by (rule fec_step.finishes) (use t assms(4) in simp_all)
    with t(1) have "(fec_step get)\<^sup>*\<^sup>* s (set_pc i Finished t)" by (rule rtranclp.rtrancl_into_rtrancl)
    with t(3) assms(4) show ?thesis by (intro exI [of _ "set_pc i Finished t"]) simp
  qed
  fix run n
  assume "\<not> fs_running s" and run: "run 0 = s \<and> (\<forall>k < n. fec_step get (run k) (run (Suc k)))"
  then show "card (own_steps i run n) \<le> (case c of Top \<Rightarrow> 1 | Entered \<Rightarrow> 3 | Got vs \<Rightarrow> 2 | Finished \<Rightarrow> 0)"
    using run_winds_down [of n get run i p c] assms(4,5) by (cases c) auto
qed

text \<open>A monitor that tests the flag before \<open>stop\<close> still reads and writes after it.\<close>

definition fec_ex_stopped :: fec_sys where
  "fec_ex_stopped = (set_pc 0 Entered fec_ex1)\<lparr>fs_running := False\<rparr>"

lemma fec_reach_ex_stopped: "fec_reach fec_get fec_ex_stopped"
proof -
  have "fec_step fec_get fec_ex1 (set_pc 0 Entered fec_ex1)"
    by (rule fec_step.enters) (simp_all add: fec_ex_defs)
  then show ?thesis
    unfolding fec_ex_stopped_def by (intro fec_reach.step [OF _ fec_step.stops] fec_reach.step [OF fec_reach_ex1])
qed

theorem fec_monitor_progress_witness:
  "(\<exists>s' f. (fec_step fec_get)\<^sup>*\<^sup>* fec_ex1_read s' \<and> fs_threads s' = [(''Ethernet0'', Top)] \<and>
     fs_trace s' = fs_trace fec_ex1_read @ [Tbl_set COUNTERS_DB ''UE_FEC_STATS_TABLE'' ''Ethernet0'' f]) \<and>
   (\<exists>s'. (fec_step fec_get)\<^sup>*\<^sup>* fec_ex_stopped s' \<and> fs_threads s' = [(''Ethernet0'', Finished)])"
  using fec_monitor_progress [OF fec_table.table_reads_axioms fec_reach_ex1_read, of 0 "''Ethernet0''"]
    fec_monitor_progress [OF fec_table.table_reads_axioms fec_reach_ex_stopped, of 0 "''Ethernet0''" Entered]
  by (simp add: fec_ex_defs fec_ex_stopped_def)

end
