(* ===== verification/Flow_Packet.thy ===== *)
theory Flow_Packet
  imports Swss
begin

text \<open>
  Flow identifiers (\<open>sonic-ue-transportd/src/ue_flow_manager.cpp\<close>): what
  \<open>parsePacketFlowId\<close> reads from a packet, byte by byte, and how \<open>ipToString\<close> and the
  statistics keys print an identifier. The declaration of \<open>UEFlowId\<close> is in a header the
  repository does not contain; its fields are taken at the widths of the values the code
  stores in them.
\<close>

section \<open>Reading a packet\<close>

record UEFlowId =
  src_ip :: "32 word"
  dst_ip :: "32 word"
  src_port :: "16 word"
  dst_port :: "16 word"
  ip_version :: "8 word"

definition zero_flow_id :: UEFlowId where
  "zero_flow_id = \<lparr>src_ip = 0, dst_ip = 0, src_port = 0, dst_port = 0, ip_version = 0\<rparr>"

text \<open>A read past the end of the buffer is undefined.\<close>

definition read_byte :: "8 word list \<Rightarrow> nat \<Rightarrow> ub + 8 word" where
  "read_byte p i = (if i < length p then Inr (p ! i) else Inl Out_of_bounds)"

fun and_then :: "ub + 'a \<Rightarrow> ('a \<Rightarrow> ub + 'b) \<Rightarrow> ub + 'b" where
  "and_then (Inl u) f = Inl u"
| "and_then (Inr x) f = f x"

text \<open>\<open>ntohs\<close> and \<open>ntohl\<close> of a field in the packet.\<close>

definition be16 :: "8 word \<Rightarrow> 8 word \<Rightarrow> 16 word" where
  "be16 a b = push_bit 8 (ucast a) OR ucast b"

definition be32 :: "8 word \<Rightarrow> 8 word \<Rightarrow> 8 word \<Rightarrow> 8 word \<Rightarrow> 32 word" where
  "be32 a b c d = push_bit 24 (ucast a) OR push_bit 16 (ucast b) OR push_bit 8 (ucast c) OR ucast d"

definition read16 :: "8 word list \<Rightarrow> nat \<Rightarrow> ub + 16 word" where
  "read16 p i =
     and_then (read_byte p i) (\<lambda>a. and_then (read_byte p (i + 1)) (\<lambda>b. Inr (be16 a b)))"

definition read32 :: "8 word list \<Rightarrow> nat \<Rightarrow> ub + 32 word" where
  "read32 p i =
     and_then (read_byte p i) (\<lambda>a. and_then (read_byte p (i + 1)) (\<lambda>b.
     and_then (read_byte p (i + 2)) (\<lambda>c. and_then (read_byte p (i + 3)) (\<lambda>d. Inr (be32 a b c d)))))"

text \<open>
  The layout of \<open>struct iphdr\<close> (20 bytes: version in the high half of byte 0, protocol at
  9, addresses at 12 and 16) and of \<open>struct udphdr\<close> (8 bytes: ports at 0 and 2).
\<close>

definition sizeof_iphdr :: nat where "sizeof_iphdr = 20"
definition sizeof_udphdr :: nat where "sizeof_udphdr = 8"

definition IPPROTO_UDP :: "8 word" where "IPPROTO_UDP = 17"

definition parsePacketFlowId :: "8 word list \<Rightarrow> nat \<Rightarrow> ub + UEFlowId" where
  "parsePacketFlowId packet len =
     (if len < sizeof_iphdr + sizeof_udphdr then Inr zero_flow_id
      else and_then (read_byte packet 0) (\<lambda>b0.
        if drop_bit 4 b0 = 4 then
          and_then (read32 packet 12) (\<lambda>saddr.
          and_then (read32 packet 16) (\<lambda>daddr.
          and_then (read_byte packet 9) (\<lambda>protocol.
            let flow_id = zero_flow_id\<lparr>ip_version := 4, src_ip := saddr, dst_ip := daddr\<rparr>
            in if protocol = IPPROTO_UDP then
                 and_then (read16 packet sizeof_iphdr) (\<lambda>source.
                 and_then (read16 packet (sizeof_iphdr + 2)) (\<lambda>dest.
                   Inr (flow_id\<lparr>src_port := source, dst_port := dest\<rparr>)))
               else Inr flow_id)))
        else Inr zero_flow_id))"

section \<open>Printing an identifier\<close>

text \<open>\<open>inet_ntop(AF_INET, ...)\<close>: the four bytes in decimal, separated by dots.\<close>

definition ip_byte :: "nat \<Rightarrow> 32 word \<Rightarrow> nat" where
  "ip_byte i ip = unat (ucast (drop_bit (8 * i) ip) :: 8 word)"

definition ipToString :: "32 word \<Rightarrow> string" where
  "ipToString ip =
     nat_digits (ip_byte 3 ip) @ CHR ''.'' # nat_digits (ip_byte 2 ip) @ CHR ''.'' #
     nat_digits (ip_byte 1 ip) @ CHR ''.'' # nat_digits (ip_byte 0 ip)"

text \<open>The key of a flow's statistics, after the name of the table.\<close>

definition flow_stats_key :: "string \<Rightarrow> UEFlowId \<Rightarrow> string" where
  "flow_stats_key table fid =
     table @ CHR '':'' # ipToString (src_ip fid) @ CHR '':'' # to_string (src_port fid) @ CHR '':'' #
     ipToString (dst_ip fid) @ CHR '':'' # to_string (dst_port fid)"

section \<open>Injectivity of the text\<close>

lemma ip_bytes_determine:
  assumes "ip_byte 0 a = ip_byte 0 b" and "ip_byte 1 a = ip_byte 1 b"
    and "ip_byte 2 a = ip_byte 2 b" and "ip_byte 3 a = ip_byte 3 b"
  shows "a = b"
proof (rule bit_word_eqI)
  fix n assume n: "n < LENGTH(32)"
  have byte: "bit a (8 * i + j) = bit b (8 * i + j)" if "ip_byte i a = ip_byte i b" "j < 8" for i j
  proof -
    have "(ucast (drop_bit (8 * i) a) :: 8 word) = ucast (drop_bit (8 * i) b)"
      using that(1) unfolding ip_byte_def by (simp only: word_unat_eq_iff)
    then have "bit (ucast (drop_bit (8 * i) a) :: 8 word) j = bit (ucast (drop_bit (8 * i) b) :: 8 word) j"
      by simp
    with that(2) show ?thesis
      by (simp add: bit_ucast_iff bit_drop_bit_eq)
  qed
  have "n = 8 * (n div 8) + n mod 8" and m: "n mod 8 < 8" by simp_all
  moreover have "n div 8 \<in> {0, 1, 2, 3}" using n by auto
  then have "ip_byte (n div 8) a = ip_byte (n div 8) b" using assms by auto
  ultimately show "bit a n = bit b n" using byte [OF _ m] by metis
qed

lemma colon_notin_ip [simp]: "CHR '':'' \<notin> set (ipToString ip)"
  by (simp add: ipToString_def)

lemma ipToString_inj: "ipToString a = ipToString b \<Longrightarrow> a = b"
  by (rule ip_bytes_determine)
    (auto simp: ipToString_def separated_iff nat_text.enc_eq_iff)

lemma ipToString_eq_iff [simp]: "ipToString a = ipToString b \<longleftrightarrow> a = b"
  using ipToString_inj by blast

lemma flow_stats_key_eq_iff:
  "flow_stats_key table f = flow_stats_key table g \<longleftrightarrow>
   src_ip f = src_ip g \<and> src_port f = src_port g \<and> dst_ip f = dst_ip g \<and> dst_port f = dst_port g"
  by (auto simp: flow_stats_key_def separated_iff)

section \<open>Packets\<close>

text \<open>An IPv4 packet with \<open>4 n\<close> bytes of options (\<open>ihl = 5 + n\<close>), the UDP ports and the rest
  of the packet (the UDP length and checksum, and the data).\<close>

definition bytes16 :: "16 word \<Rightarrow> 8 word list" where
  "bytes16 w = [ucast (drop_bit 8 w), ucast w]"

definition bytes32 :: "32 word \<Rightarrow> 8 word list" where
  "bytes32 w = [ucast (drop_bit 24 w), ucast (drop_bit 16 w), ucast (drop_bit 8 w), ucast w]"

definition ip_header :: "8 word list \<Rightarrow> UEFlowId \<Rightarrow> 8 word list \<Rightarrow> 8 word list" where
  "ip_header pre fid options =
     word_of_nat (64 + (5 + length options div 4)) # pre @ [IPPROTO_UDP, 0, 0] @
     bytes32 (src_ip fid) @ bytes32 (dst_ip fid) @ options"

definition udp_packet :: "8 word list \<Rightarrow> UEFlowId \<Rightarrow> 8 word list \<Rightarrow> 8 word list \<Rightarrow> 8 word list" where
  "udp_packet pre fid options payload =
     ip_header pre fid options @ bytes16 (src_port fid) @ bytes16 (dst_port fid) @ payload"

lemma be16_bytes: "be16 (ucast (drop_bit 8 w)) (ucast w) = w"
  unfolding be16_def by (rule bit_word_eqI) (auto simp: bit_simps not_less)

lemma be32_bytes:
  "be32 (ucast (drop_bit 24 w)) (ucast (drop_bit 16 w)) (ucast (drop_bit 8 w)) (ucast w) = w"
proof (rule bit_word_eqI)
  fix n assume "n < LENGTH(32)"
  then consider "n < 8" | "8 \<le> n \<and> n < 16" | "16 \<le> n \<and> n < 24" | "24 \<le> n \<and> n < 32"
    by fastforce
  then show "bit (be32 (ucast (drop_bit 24 w)) (ucast (drop_bit 16 w)) (ucast (drop_bit 8 w)) (ucast w)) n
      \<longleftrightarrow> bit w n"
    by cases (auto simp: be32_def bit_simps)
qed

lemma version_nibble:
  assumes "k \<le> 10"
  shows "drop_bit 4 (word_of_nat (64 + (5 + k)) :: 8 word) = 4"
proof -
  have "k = 0 \<or> k = 1 \<or> k = 2 \<or> k = 3 \<or> k = 4 \<or> k = 5 \<or> k = 6 \<or> k = 7 \<or> k = 8 \<or> k = 9 \<or> k = 10"
    using assms by presburger
  then show ?thesis by (elim disjE) simp_all
qed

lemma eight_elements: "length xs = 8 \<Longrightarrow> \<exists>a b c d e f g h. xs = [a, b, c, d, e, f, g, h]"
  by (auto simp: numeral_eq_Suc length_Suc_conv)

text \<open>What the parser reads from a packet whose options begin with, or are followed by, four bytes.\<close>

lemma parse_ports:
  assumes "length pre = 8" and "length options div 4 \<le> 10" and "options @ rest = a # b # c # d # tl4"
    and "4 \<le> length tl4"
  shows "parsePacketFlowId (ip_header pre fid options @ rest) (length (ip_header pre fid options @ rest)) =
    Inr \<lparr>src_ip = src_ip fid, dst_ip = dst_ip fid, src_port = be16 a b, dst_port = be16 c d, ip_version = 4\<rparr>"
proof -
  obtain p1 p2 p3 p4 p5 p6 p7 p8 where pre: "pre = [p1, p2, p3, p4, p5, p6, p7, p8]"
    using eight_elements [OF assms(1)] by blast
  have packet: "ip_header pre fid options @ rest =
      word_of_nat (64 + (5 + length options div 4)) # pre @ [IPPROTO_UDP, 0, 0] @
      bytes32 (src_ip fid) @ bytes32 (dst_ip fid) @ a # b # c # d # tl4"
    using assms(3) by (simp add: ip_header_def)
  show ?thesis
    unfolding packet parsePacketFlowId_def sizeof_iphdr_def sizeof_udphdr_def
    using assms(4) version_nibble [OF assms(2)]
    by (simp add: pre bytes32_def read_byte_def read32_def read16_def be32_bytes zero_flow_id_def Let_def)
qed

text \<open>Without options, the ports are the two behind the header.\<close>

lemma parse_udp_ports:
  assumes "length pre = 8" and "4 \<le> length rest"
  shows "parsePacketFlowId (ip_header pre fid [] @ bytes16 (src_port fid) @ bytes16 (dst_port fid) @ rest)
      (length (ip_header pre fid [] @ bytes16 (src_port fid) @ bytes16 (dst_port fid) @ rest)) =
    Inr (fid\<lparr>ip_version := 4\<rparr>)"
  by (subst parse_ports [OF assms(1), of "[]" _
        "ucast (drop_bit 8 (src_port fid))" "ucast (src_port fid)"
        "ucast (drop_bit 8 (dst_port fid))" "ucast (dst_port fid)" rest])
    (simp_all add: bytes16_def be16_bytes assms(2))

lemma parse_in_bounds:
  assumes "len \<le> length packet \<or> 24 \<le> length packet"
  shows "\<exists>fid. parsePacketFlowId packet len = Inr fid"
proof (cases "len < 28")
  case True
  then show ?thesis by (simp add: parsePacketFlowId_def sizeof_iphdr_def sizeof_udphdr_def)
next
  case False
  with assms have "24 \<le> length packet" by auto
  moreover from this have "packet \<noteq> []" by auto
  ultimately show ?thesis
    by (simp add: parsePacketFlowId_def sizeof_iphdr_def sizeof_udphdr_def read_byte_def
        read32_def read16_def Let_def)
qed

section \<open>An example\<close>

definition flow_ex_id :: UEFlowId where
  "flow_ex_id =
     \<lparr>src_ip = 3232235777, dst_ip = 3232235778, src_port = 4793, dst_port = 4794, ip_version = 4\<rparr>"

definition flow_ex_pre :: "8 word list" where
  "flow_ex_pre = [0, 0, 32, 0, 1, 0, 0, 64]"

section \<open>Properties\<close>

text \<open>
  Property C25: parsing is memory safe: if the buffer holds the announced length, no read
  goes past it, whatever the bytes are; and it never needs more than the 24 bytes up to
  the end of the UDP ports.
\<close>

theorem flow_parse_safe:
  assumes "len \<le> length packet \<or> 24 \<le> length packet"
  shows "\<exists>fid. parsePacketFlowId packet len = Inr fid"
  using assms by (rule parse_in_bounds)

theorem flow_parse_safe_witness:
  "\<exists>fid. parsePacketFlowId (replicate 28 69) 28 = Inr fid"
  by (rule flow_parse_safe) simp

text \<open>
  An IPv4 packet without options that carries UDP is identified by exactly its
  addresses and ports.
\<close>

theorem flow_parse_roundtrip:
  assumes "length pre = 8" and "4 \<le> length payload"
  shows "parsePacketFlowId (udp_packet pre fid [] payload) (length (udp_packet pre fid [] payload)) =
    Inr (fid\<lparr>ip_version := 4\<rparr>)"
  unfolding udp_packet_def using parse_udp_ports [OF assms] .

theorem flow_parse_roundtrip_witness:
  "parsePacketFlowId (udp_packet flow_ex_pre flow_ex_id [] [1, 2, 3, 4]) 28 =
   Inr (flow_ex_id\<lparr>ip_version := 4\<rparr>)"
proof -
  have len: "length (udp_packet flow_ex_pre flow_ex_id [] [1, 2, 3, 4]) = 28"
    by (simp add: udp_packet_def ip_header_def bytes32_def bytes16_def flow_ex_pre_def)
  show ?thesis
    using flow_parse_roundtrip [of flow_ex_pre "[1, 2, 3, 4]" flow_ex_id]
    unfolding len by (simp add: flow_ex_pre_def)
qed

text \<open>
  Property C24: with IPv4 options the parser takes the first four option bytes for the
  ports: the header length field is never read.
\<close>

theorem flow_parse_options:
  assumes "length pre = 8" and "length options = 4 * k" and "0 < k" and "k \<le> 10"
  shows "parsePacketFlowId (udp_packet pre fid options payload) (length (udp_packet pre fid options payload)) =
    Inr (fid\<lparr>src_port := be16 (options ! 0) (options ! 1), dst_port := be16 (options ! 2) (options ! 3),
             ip_version := 4\<rparr>)"
proof -
  obtain a b c d rest where options: "options = a # b # c # d # rest"
  proof -
    have "Suc (Suc (Suc (Suc 0))) \<le> length options" using assms(2,3) by simp
    then show thesis using that by (auto simp: Suc_le_length_iff)
  qed
  show ?thesis
    unfolding udp_packet_def
    using assms by (subst parse_ports [of _ _ _ a b c d
      "rest @ bytes16 (src_port fid) @ bytes16 (dst_port fid) @ payload"])
      (simp_all add: options bytes16_def)
qed

theorem flow_parse_options_witness:
  "parsePacketFlowId (udp_packet flow_ex_pre flow_ex_id [148, 4, 0, 0] []) 28 =
   Inr (flow_ex_id\<lparr>src_port := 37892, dst_port := 0, ip_version := 4\<rparr>)"
proof -
  have len: "length (udp_packet flow_ex_pre flow_ex_id [148, 4, 0, 0] []) = 28"
    by (simp add: udp_packet_def ip_header_def bytes32_def bytes16_def flow_ex_pre_def)
  show ?thesis
    using flow_parse_options [of flow_ex_pre "[148, 4, 0, 0]" 1 flow_ex_id "[]"]
    unfolding len by (simp add: flow_ex_pre_def be16_def)
qed

text \<open>
  Two flows share a statistics key exactly when they have the same addresses
  and ports: the text loses nothing, except the IP version.
\<close>

theorem flow_stats_key_injective:
  "flow_stats_key table f = flow_stats_key table g \<longleftrightarrow>
   src_ip f = src_ip g \<and> src_port f = src_port g \<and> dst_ip f = dst_ip g \<and> dst_port f = dst_port g"
  by (rule flow_stats_key_eq_iff)

end
