(* ===== verification/Transport_Types.thy ===== *)
theory Transport_Types
  imports Swss
begin

text \<open>
  What the managers of the transport daemon (\<open>sonic-ue-transportd/src\<close>) share: the
  congestion-control algorithms and their names in the configuration. The enumeration is
  declared in a header the repository does not contain; its constructors are the ones the
  code uses, and their integer codes stay parameters.
\<close>

datatype UECongestionAlgorithm = UE_CUBIC | UE_CUBIC_PLUS | HYBRID | RECEIVER_BASED

text \<open>The comparisons with the four names; an unknown name leaves the algorithm alone.\<close>

definition read_algorithm :: "string \<Rightarrow> UECongestionAlgorithm \<Rightarrow> UECongestionAlgorithm" where
  "read_algorithm value old =
     (if value = ''ue_cubic'' then UE_CUBIC
      else if value = ''ue_cubic_plus'' then UE_CUBIC_PLUS
      else if value = ''hybrid'' then HYBRID
      else if value = ''receiver_based'' then RECEIVER_BASED
      else old)"

fun algorithm_name :: "UECongestionAlgorithm \<Rightarrow> string" where
  "algorithm_name UE_CUBIC = ''ue_cubic''"
| "algorithm_name UE_CUBIC_PLUS = ''ue_cubic_plus''"
| "algorithm_name HYBRID = ''hybrid''"
| "algorithm_name RECEIVER_BASED = ''receiver_based''"

lemma read_algorithm_name [simp]: "read_algorithm (algorithm_name a) old = a"
  by (cases a) (simp_all add: read_algorithm_def)

interpretation algorithm_text: codec algorithm_name
  "\<lambda>s. if read_algorithm s UE_CUBIC = read_algorithm s HYBRID then Some (read_algorithm s HYBRID) else None"
  "\<lambda>_. True"
  by unfold_locales simp

end
