(* ===== verification/Flow_Manager.thy ===== *)
theory Flow_Manager
  imports Flow_Packet Transport_Types
begin

text \<open>
  \<open>sonic-ue-transportd/src/ue_flow_manager.cpp\<close>: the flow table of the transport daemon.
  The header with the class and its structures is not in the repository. Members the code
  only assigns 32-bit values to are taken at that width; where the width decides what the
  code computes (path counts, counters, round-trip times) it is a type parameter. Table
  names and the integer codes of the enumerations are fields of the environment.
\<close>

section \<open>State\<close>

datatype UEFlowMode =
    RELIABLE_UNORDERED_DELIVERY
  | RELIABLE_ORDERED_DELIVERY
  | UNRELIABLE_UNORDERED_DELIVERY
  | RELIABLE_UNORDERED_DELIVERY_IDEMPOTENT

record (overloaded) 'p UEFlowState =
  fl_flow_id :: UEFlowId
  fl_mode :: UEFlowMode
  fl_sequence_num :: "32 word"
  fl_ack_num :: "32 word"
  fl_window_size :: "32 word"
  fl_congestion_window :: "32 word"
  fl_ssthresh :: "32 word"
  fl_last_activity :: int
  fl_packet_spraying_enabled :: bool
  fl_active_paths :: "'p::len word"
  fl_path_weights :: "32 word list"

record (overloaded) ('c, 'r) UEFlowStats =
  packets_sent :: "'c::len word"
  packets_received :: "'c word"
  bytes_sent :: "'c word"
  bytes_received :: "'c word"
  current_rtt_us :: "'r::len word"
  min_rtt_us :: "'r word"
  max_rtt_us :: "'r word"
  avg_rtt_us :: "'r word"
  packets_retransmitted :: "'c word"
  out_of_order_packets :: "'c word"
  duplicate_packets :: "'c word"

definition zero_flow_stats :: "('c::len, 'r::len) UEFlowStats" where
  "zero_flow_stats =
     \<lparr>packets_sent = 0, packets_received = 0, bytes_sent = 0, bytes_received = 0,
      current_rtt_us = 0, min_rtt_us = 0, max_rtt_us = 0, avg_rtt_us = 0,
      packets_retransmitted = 0, out_of_order_packets = 0, duplicate_packets = 0\<rparr>"

record flow_env =
  APP_UE_FLOW_TABLE_NAME :: string
  STATE_UE_FLOW_STATS_TABLE_NAME :: string
  flow_mode_code :: "UEFlowMode \<Rightarrow> int"
  flow_algorithm_code :: "UECongestionAlgorithm \<Rightarrow> int"

text \<open>The last three members are the function-local statics of \<open>doPeriodicTask\<close>.\<close>

record (overloaded) ('p, 'c, 'r) flow_state =
  m_default_flow_mode :: UEFlowMode
  m_congestion_algorithm :: UECongestionAlgorithm
  m_default_window_size :: "32 word"
  m_max_flows :: "32 word"
  m_flow_timeout_sec :: "32 word"
  m_active_flows :: "(UEFlowId, 'p::len UEFlowState) umap"
  m_flow_stats :: "(UEFlowId, ('c::len, 'r::len) UEFlowStats) umap"
  flow_io :: "db_cmd list"
  flow_last_stats_update :: int
  flow_last_cleanup :: int
  flow_last_report :: int

definition UEFlowManager :: "('p::len, 'c::len, 'r::len) flow_state" where
  "UEFlowManager =
     \<lparr>m_default_flow_mode = RELIABLE_UNORDERED_DELIVERY,
      m_congestion_algorithm = UE_CUBIC_PLUS, m_default_window_size = 65536,
      m_max_flows = 1000000, m_flow_timeout_sec = 300,
      m_active_flows = [], m_flow_stats = [], flow_io = [],
      flow_last_stats_update = 0, flow_last_cleanup = 0, flow_last_report = 0\<rparr>"

definition flow_emit :: "db_cmd \<Rightarrow> ('p::len, 'c::len, 'r::len) flow_state \<Rightarrow> ('p, 'c, 'r) flow_state" where
  "flow_emit c s = s\<lparr>flow_io := flow_io s @ [c]\<rparr>"

section \<open>Configuration\<close>

definition read_flow_mode :: "string \<Rightarrow> UEFlowMode \<Rightarrow> UEFlowMode" where
  "read_flow_mode value old =
     (if value = ''rud'' then RELIABLE_UNORDERED_DELIVERY
      else if value = ''rod'' then RELIABLE_ORDERED_DELIVERY
      else if value = ''uud'' then UNRELIABLE_UNORDERED_DELIVERY
      else if value = ''rudi'' then RELIABLE_UNORDERED_DELIVERY_IDEMPOTENT
      else old)"

text \<open>
  \<open>try { uint32_t x = std::stoi(value); if (x >= lo && x <= hi) m = x; } catch ...\<close>.
\<close>

definition checked_uint32 :: "32 word \<Rightarrow> 32 word \<Rightarrow> string \<Rightarrow> 32 word \<Rightarrow> 32 word" where
  "checked_uint32 lo hi value old =
     (case stoi value of
        Inl e \<Rightarrow> old
      | Inr v \<Rightarrow> (let x = word_of_int v in if lo \<le> x \<and> x \<le> hi then x else old))"

fun transport_field ::
  "('p::len, 'c::len, 'r::len) flow_state \<Rightarrow> string \<times> string \<Rightarrow> ('p, 'c, 'r) flow_state" where
  "transport_field s (field, value) =
     (if field = ''default_flow_mode'' then
        s\<lparr>m_default_flow_mode := read_flow_mode value (m_default_flow_mode s)\<rparr>
      else if field = ''congestion_algorithm'' then
        s\<lparr>m_congestion_algorithm := read_algorithm value (m_congestion_algorithm s)\<rparr>
      else if field = ''default_window_size'' then
        s\<lparr>m_default_window_size := checked_uint32 1024 1048576 value (m_default_window_size s)\<rparr>
      else if field = ''max_flows'' then
        s\<lparr>m_max_flows := checked_uint32 1000 10000000 value (m_max_flows s)\<rparr>
      else if field = ''flow_timeout_sec'' then
        s\<lparr>m_flow_timeout_sec := checked_uint32 10 3600 value (m_flow_timeout_sec s)\<rparr>
      else s)"

definition transport_fvs :: "flow_env \<Rightarrow> ('p::len, 'c::len, 'r::len) flow_state \<Rightarrow> fvs" where
  "transport_fvs E s =
     [(''default_flow_mode'', to_string_int (flow_mode_code E (m_default_flow_mode s))),
      (''congestion_algorithm'', to_string_int (flow_algorithm_code E (m_congestion_algorithm s))),
      (''default_window_size'', to_string (m_default_window_size s)),
      (''max_flows'', to_string (m_max_flows s)),
      (''flow_timeout_sec'', to_string (m_flow_timeout_sec s))]"

definition processTransportConfig ::
  "flow_env \<Rightarrow> string \<Rightarrow> operation \<Rightarrow> fvs \<Rightarrow> ('p::len, 'c::len, 'r::len) flow_state \<Rightarrow> ('p, 'c, 'r) flow_state" where
  "processTransportConfig E key op vals s =
     (if key \<noteq> ''global'' then s
      else if op = SET_COMMAND then
        (let s1 = foldl transport_field s vals
         in flow_emit (Db_set APPL_DB (APP_UE_FLOW_TABLE_NAME E @ '':global'') (transport_fvs E s1)) s1)
      else s)"

text \<open>
  The fields \<open>ecn_enable\<close> and \<open>selective_ack\<close> are only logged; the loop over the active
  flows under the first has no other statement in its body.
\<close>

definition processFlowConfig ::
  "string \<Rightarrow> operation \<Rightarrow> fvs \<Rightarrow> ('p::len, 'c::len, 'r::len) flow_state \<Rightarrow> ('p, 'c, 'r) flow_state outcome" where
  "processFlowConfig key op vals s =
     (if op = SET_COMMAND then
        foldl (\<lambda>r fv. out_bind r (\<lambda>s.
            if fst fv = ''ecn_enable'' then range_for m_active_flows (\<lambda>_. Normal) s else Normal s))
          (Normal s) vals
      else Normal s)"

definition flow_handle ::
  "flow_env \<Rightarrow> consumer \<Rightarrow> ('p::len, 'c::len, 'r::len) flow_state \<Rightarrow> task \<Rightarrow> ('p, 'c, 'r) flow_state outcome" where
  "flow_handle E c s t =
     try_catch
       (case c of
          Config_consumer \<Rightarrow> Normal (processTransportConfig E (kfvKey t) (kfvOp t) (kfvFieldsValues t) s)
        | Flow_consumer \<Rightarrow> processFlowConfig (kfvKey t) (kfvOp t) (kfvFieldsValues t) s
        | _ \<Rightarrow> Normal s)"

definition flow_doTask ::
  "flow_env \<Rightarrow> consumer \<Rightarrow> ('p::len, 'c::len, 'r::len) flow_state \<Rightarrow> task list \<Rightarrow>
   ('p, 'c, 'r) flow_state outcome \<times> task list" where
  "flow_doTask E c s ts = drain (flow_handle E c) s ts"

section \<open>The flow table\<close>

text \<open>\<open>now\<close> is the result of the operation's call of \<open>time(nullptr)\<close>.\<close>

definition new_flow ::
  "int \<Rightarrow> UEFlowId \<Rightarrow> UEFlowMode \<Rightarrow> 32 word \<Rightarrow> ('p::len) UEFlowState" where
  "new_flow now fid mode window =
     \<lparr>fl_flow_id = fid, fl_mode = mode, fl_sequence_num = 1, fl_ack_num = 0,
      fl_window_size = window, fl_congestion_window = window, fl_ssthresh = 65536,
      fl_last_activity = now, fl_packet_spraying_enabled = True, fl_active_paths = 4,
      fl_path_weights = [25, 25, 25, 25]\<rparr>"

definition createFlow ::
  "int \<Rightarrow> UEFlowId \<Rightarrow> UEFlowMode \<Rightarrow> ('p::len, 'c::len, 'r::len) flow_state \<Rightarrow> ('p, 'c, 'r) flow_state" where
  "createFlow now fid mode s =
     (if unat (m_max_flows s) \<le> length (m_active_flows s) then s
      else if um_find (m_active_flows s) fid \<noteq> None then s
      else s\<lparr>m_active_flows :=
               um_assign fid (new_flow now fid mode (m_default_window_size s)) (m_active_flows s),
             m_flow_stats := um_assign fid zero_flow_stats (m_flow_stats s)\<rparr>)"

definition stats_key :: "flow_env \<Rightarrow> UEFlowId \<Rightarrow> string" where
  "stats_key E fid = flow_stats_key (STATE_UE_FLOW_STATS_TABLE_NAME E) fid"

definition removeFlow ::
  "flow_env \<Rightarrow> UEFlowId \<Rightarrow> ('p::len, 'c::len, 'r::len) flow_state \<Rightarrow> ('p, 'c, 'r) flow_state" where
  "removeFlow E fid s =
     flow_emit (Db_del STATE_DB (stats_key E fid))
       (s\<lparr>m_active_flows := um_erase fid (m_active_flows s),
          m_flow_stats := um_erase fid (m_flow_stats s)\<rparr>)"

definition updateFlowState ::
  "int \<Rightarrow> UEFlowId \<Rightarrow> ('p::len) UEFlowState \<Rightarrow> ('p, 'c::len, 'r::len) flow_state \<Rightarrow> ('p, 'c, 'r) flow_state" where
  "updateFlowState now fid st s =
     (case um_find (m_active_flows s) fid of
        None \<Rightarrow> s
      | Some _ \<Rightarrow>
          s\<lparr>m_active_flows := um_assign fid (st\<lparr>fl_last_activity := now\<rparr>) (m_active_flows s)\<rparr>)"

definition enablePacketSpraying ::
  "UEFlowId \<Rightarrow> 8 word \<Rightarrow> ('p::len, 'c::len, 'r::len) flow_state \<Rightarrow> ('p, 'c, 'r) flow_state outcome" where
  "enablePacketSpraying fid num_paths s =
     (case um_find (m_active_flows s) fid of
        None \<Rightarrow> Normal s
      | Some fl \<Rightarrow>
          if num_paths = 0 then Undefined Division_by_zero
          else Normal (s\<lparr>m_active_flows := um_assign fid
                 (fl\<lparr>fl_packet_spraying_enabled := True, fl_active_paths := ucast num_paths,
                     fl_path_weights := replicate (unat num_paths) (100 div ucast num_paths)\<rparr>)
                 (m_active_flows s)\<rparr>))"

definition updateFlowPaths ::
  "UEFlowId \<Rightarrow> 32 word list \<Rightarrow> ('p::len, 'c::len, 'r::len) flow_state \<Rightarrow> ('p, 'c, 'r) flow_state" where
  "updateFlowPaths fid weights s =
     (case um_find (m_active_flows s) fid of
        None \<Rightarrow> s
      | Some fl \<Rightarrow>
          s\<lparr>m_active_flows := um_assign fid
              (fl\<lparr>fl_path_weights := weights, fl_active_paths := of_nat (length weights)\<rparr>)
              (m_active_flows s)\<rparr>)"

section \<open>Packets and round-trip times\<close>

text \<open>
  \<open>now\<close> and \<open>now'\<close> are the results of the calls of \<open>time\<close> in \<open>createFlow\<close> and in the
  handler itself. The four cases of the switch over the mode are empty.
\<close>

definition processIncomingPacket ::
  "int \<Rightarrow> int \<Rightarrow> 8 word list \<Rightarrow> nat \<Rightarrow> ('p::len, 'c::len, 'r::len) flow_state \<Rightarrow> ('p, 'c, 'r) flow_state outcome" where
  "processIncomingPacket now now' packet len s =
     (case parsePacketFlowId packet len of
        Inl u \<Rightarrow> Undefined u
      | Inr fid \<Rightarrow>
          if src_ip fid = 0 \<or> dst_ip fid = 0 then Normal s
          else
            (let s1 = (if um_find (m_active_flows s) fid = None
                       then createFlow now fid (m_default_flow_mode s) s else s)
             in case um_find (m_active_flows s1) fid of
                  None \<Rightarrow> Normal s1
                | Some fl \<Rightarrow>
                    Normal (s1\<lparr>
                      m_flow_stats := um_modify zero_flow_stats fid
                        (\<lambda>st. st\<lparr>packets_received := packets_received st + 1,
                                 bytes_received := bytes_received st + of_nat len\<rparr>) (m_flow_stats s1),
                      m_active_flows := um_assign fid (fl\<lparr>fl_last_activity := now'\<rparr>) (m_active_flows s1)\<rparr>)))"

text \<open>
  The arithmetic of the average is done at the width of the member, which is at least that
  of the \<open>uint32_t\<close> argument.
\<close>

definition rtt_update :: "32 word \<Rightarrow> ('c::len, 'r::len) UEFlowStats \<Rightarrow> ('c, 'r) UEFlowStats" where
  "rtt_update rtt_us st =
     (let r = ucast rtt_us;
          mn = (if min_rtt_us st = 0 \<or> r < min_rtt_us st then r else min_rtt_us st);
          mx = (if max_rtt_us st < r then r else max_rtt_us st);
          avg = (if avg_rtt_us st = 0 then r else (avg_rtt_us st * 7 + r) div 8)
      in st\<lparr>current_rtt_us := r, min_rtt_us := mn, max_rtt_us := mx, avg_rtt_us := avg\<rparr>)"

definition updateFlowRTT ::
  "UEFlowId \<Rightarrow> 32 word \<Rightarrow> ('p::len, 'c::len, 'r::len) flow_state \<Rightarrow> ('p, 'c, 'r) flow_state" where
  "updateFlowRTT fid rtt_us s =
     (case um_find (m_flow_stats s) fid of
        None \<Rightarrow> s
      | Some st \<Rightarrow> s\<lparr>m_flow_stats := um_assign fid (rtt_update rtt_us st) (m_flow_stats s)\<rparr>)"

section \<open>Periodic work\<close>

definition flow_stats_fvs :: "('c::len, 'r::len) UEFlowStats \<Rightarrow> fvs" where
  "flow_stats_fvs st =
     [(''packets_sent'', to_string (packets_sent st)),
      (''packets_received'', to_string (packets_received st)),
      (''bytes_sent'', to_string (bytes_sent st)),
      (''bytes_received'', to_string (bytes_received st)),
      (''current_rtt_us'', to_string (current_rtt_us st)),
      (''min_rtt_us'', to_string (min_rtt_us st)),
      (''max_rtt_us'', to_string (max_rtt_us st)),
      (''avg_rtt_us'', to_string (avg_rtt_us st)),
      (''packets_retransmitted'', to_string (packets_retransmitted st)),
      (''out_of_order_packets'', to_string (out_of_order_packets st)),
      (''duplicate_packets'', to_string (duplicate_packets st))]"

definition publish_flow ::
  "flow_env \<Rightarrow> UEFlowId \<Rightarrow> ('p::len, 'c::len, 'r::len) flow_state \<Rightarrow> ('p, 'c, 'r) flow_state" where
  "publish_flow E fid s =
     flow_emit (Db_set STATE_DB (stats_key E fid)
       (flow_stats_fvs (um_at zero_flow_stats (m_flow_stats s) fid))) s"

definition updateFlowStatistics ::
  "flow_env \<Rightarrow> ('p::len, 'c::len, 'r::len) flow_state \<Rightarrow> ('p, 'c, 'r) flow_state outcome" where
  "updateFlowStatistics E s = range_for m_flow_stats (\<lambda>fid s. Normal (publish_flow E fid s)) s"

text \<open>
  The iterator loop of \<open>cleanupExpiredFlows\<close>: \<open>erase(it)\<close> returns the iterator of the
  following element, so the loop visits the elements that were there, each once.
\<close>

definition flow_expired :: "int \<Rightarrow> ('p::len, 'c::len, 'r::len) flow_state \<Rightarrow> UEFlowId \<Rightarrow> bool" where
  "flow_expired now s fid =
     (case um_find (m_active_flows s) fid of
        None \<Rightarrow> False
      | Some fl \<Rightarrow> uint (m_flow_timeout_sec s) < now - fl_last_activity fl)"

fun cleanup_from ::
  "flow_env \<Rightarrow> int \<Rightarrow> UEFlowId list \<Rightarrow> ('p::len, 'c::len, 'r::len) flow_state \<Rightarrow> ('p, 'c, 'r) flow_state" where
  "cleanup_from E now [] s = s"
| "cleanup_from E now (fid # it) s =
     (if flow_expired now s fid then
        (let s1 = s\<lparr>m_flow_stats := um_erase fid (m_flow_stats s)\<rparr>;
             s2 = flow_emit (Db_del STATE_DB (stats_key E fid)) s1;
             s3 = s2\<lparr>m_active_flows := um_erase fid (m_active_flows s2)\<rparr>
         in cleanup_from E now it s3)
      else cleanup_from E now it s)"

definition cleanupExpiredFlows ::
  "flow_env \<Rightarrow> int \<Rightarrow> ('p::len, 'c::len, 'r::len) flow_state \<Rightarrow> ('p, 'c, 'r) flow_state" where
  "cleanupExpiredFlows E now s = cleanup_from E now (um_keys (m_active_flows s)) s"

text \<open>\<open>now'\<close> is the time \<open>cleanupExpiredFlows\<close> reads for itself.\<close>

definition flow_doPeriodicTask ::
  "flow_env \<Rightarrow> int \<Rightarrow> int \<Rightarrow> ('p::len, 'c::len, 'r::len) flow_state \<Rightarrow> ('p, 'c, 'r) flow_state outcome" where
  "flow_doPeriodicTask E now now' s =
     out_bind
       (if 1 \<le> now - flow_last_stats_update s
        then out_bind (updateFlowStatistics E s) (\<lambda>s. Normal (s\<lparr>flow_last_stats_update := now\<rparr>))
        else Normal s)
       (\<lambda>s1.
          let s2 = (if 60 \<le> now - flow_last_cleanup s1
                    then (cleanupExpiredFlows E now' s1)\<lparr>flow_last_cleanup := now\<rparr> else s1)
          in Normal (if 300 \<le> now - flow_last_report s2 then s2\<lparr>flow_last_report := now\<rparr> else s2))"

section \<open>Frames\<close>

lemma flow_emit_frame [simp]:
  "m_default_flow_mode (flow_emit c s) = m_default_flow_mode s"
  "m_default_window_size (flow_emit c s) = m_default_window_size s"
  "m_max_flows (flow_emit c s) = m_max_flows s"
  "m_flow_timeout_sec (flow_emit c s) = m_flow_timeout_sec s"
  "m_active_flows (flow_emit c s) = m_active_flows s"
  "m_flow_stats (flow_emit c s) = m_flow_stats s"
  "flow_io (flow_emit c s) = flow_io s @ [c]"
  "flow_last_stats_update (flow_emit c s) = flow_last_stats_update s"
  "flow_last_cleanup (flow_emit c s) = flow_last_cleanup s"
  "flow_last_report (flow_emit c s) = flow_last_report s"
  by (simp_all add: flow_emit_def)

lemma length_um_keys [simp]: "length (um_keys m) = length m"
  by (simp add: um_keys_def)

section \<open>The invariant\<close>

definition transport_config_ok :: "('p::len, 'c::len, 'r::len) flow_state \<Rightarrow> bool" where
  "transport_config_ok s \<longleftrightarrow>
     1024 \<le> unat (m_default_window_size s) \<and> unat (m_default_window_size s) \<le> 1048576 \<and>
     1000 \<le> unat (m_max_flows s) \<and> unat (m_max_flows s) \<le> 10000000 \<and>
     10 \<le> unat (m_flow_timeout_sec s) \<and> unat (m_flow_timeout_sec s) \<le> 3600"

text \<open>
  The configuration is in its limits; flows and statistics have the same keys; the table is
  bounded; statistics are published for active flows only.
\<close>

definition flow_inv :: "flow_env \<Rightarrow> ('p::len, 'c::len, 'r::len) flow_state \<Rightarrow> bool" where
  "flow_inv E s \<longleftrightarrow>
     transport_config_ok s \<and> um_wf (m_active_flows s) \<and> um_wf (m_flow_stats s) \<and>
     dom (um_find (m_flow_stats s)) = dom (um_find (m_active_flows s)) \<and>
     length (m_active_flows s) \<le> 10000000 \<and>
     dom (published (flow_io s) STATE_DB) \<subseteq> stats_key E ` dom (um_find (m_active_flows s))"

lemma flow_invD:
  assumes "flow_inv E s"
  shows "transport_config_ok s" and "um_wf (m_active_flows s)" and "um_wf (m_flow_stats s)"
    and "dom (um_find (m_flow_stats s)) = dom (um_find (m_active_flows s))"
    and "length (m_active_flows s) \<le> 10000000"
    and "dom (published (flow_io s) STATE_DB) \<subseteq> stats_key E ` dom (um_find (m_active_flows s))"
  using assms unfolding flow_inv_def by blast+

lemma flow_inv_init: "flow_inv E UEFlowManager"
  by (simp add: flow_inv_def UEFlowManager_def transport_config_ok_def dom_def)

lemma checked_uint32_bounds:
  "lo \<le> old \<Longrightarrow> old \<le> hi \<Longrightarrow> lo \<le> checked_uint32 lo hi v old \<and> checked_uint32 lo hi v old \<le> hi"
  by (simp add: checked_uint32_def Let_def split: sum.split)

lemma transport_config_words:
  "transport_config_ok s \<longleftrightarrow>
     1024 \<le> m_default_window_size s \<and> m_default_window_size s \<le> 1048576 \<and>
     1000 \<le> m_max_flows s \<and> m_max_flows s \<le> 10000000 \<and>
     10 \<le> m_flow_timeout_sec s \<and> m_flow_timeout_sec s \<le> 3600"
  by (simp add: transport_config_ok_def word_le_nat_alt)

lemma transport_field_ok: "transport_config_ok s \<Longrightarrow> transport_config_ok (transport_field s fv)"
  by (cases fv) (simp add: transport_config_words checked_uint32_bounds)

lemma transport_field_frame [simp]:
  "m_active_flows (transport_field s fv) = m_active_flows s"
  "m_flow_stats (transport_field s fv) = m_flow_stats s"
  "flow_io (transport_field s fv) = flow_io s"
  "flow_last_stats_update (transport_field s fv) = flow_last_stats_update s"
  "flow_last_cleanup (transport_field s fv) = flow_last_cleanup s"
  by (cases fv; simp)+

lemma transport_fields_frame [simp]:
  "m_active_flows (foldl transport_field s vals) = m_active_flows s"
  "m_flow_stats (foldl transport_field s vals) = m_flow_stats s"
  "flow_io (foldl transport_field s vals) = flow_io s"
  by (induction vals arbitrary: s) simp_all

lemma transport_config_emit [simp]: "transport_config_ok (flow_emit c s) = transport_config_ok s"
  by (simp add: transport_config_ok_def)

lemma processTransportConfig_inv: "flow_inv E s \<Longrightarrow> flow_inv E (processTransportConfig E key op vals s)"
proof -
  assume inv: "flow_inv E s"
  have "transport_config_ok (foldl transport_field s vals)"
    by (rule foldl_invariant [where P = transport_config_ok])
      (simp_all add: flow_invD(1) [OF inv] transport_field_ok)
  then show ?thesis
    using inv by (simp add: processTransportConfig_def Let_def flow_inv_def dom_def)
qed

lemma range_for_nothing: "range_for m (\<lambda>_. Normal) s = Normal s"
proof -
  have "range_for_keys m (\<lambda>_. Normal) ks s = Normal s" for ks
    by (induction ks) simp_all
  then show ?thesis by (simp add: range_for_def)
qed

lemma processFlowConfig_id: "processFlowConfig key op vals s = Normal s"
proof -
  have "foldl (\<lambda>r fv. out_bind r (\<lambda>s.
      if fst fv = ''ecn_enable'' then range_for m_active_flows (\<lambda>_. Normal) s else Normal s))
    (Normal s) vals = Normal s"
    by (induction vals) (simp_all add: range_for_nothing)
  then show ?thesis by (simp add: processFlowConfig_def)
qed

lemma flow_handle_Normal: "\<exists>s'. flow_handle E c s t = Normal s' \<and> (flow_inv E s \<longrightarrow> flow_inv E s')"
  by (cases c) (simp_all add: flow_handle_def processFlowConfig_id processTransportConfig_inv)

interpretation flow_tasks: total_task_handler "flow_handle E c" "flow_inv E" for E c
proof unfold_locales
  show "out_all (flow_inv E) (flow_handle E c s t)" if "flow_inv E s" for s t
    using flow_handle_Normal [of E c s t] that by auto
  show "returns (flow_handle E c s t)" if "flow_inv E s" for s t
    using flow_handle_Normal [of E c s t] by auto
qed

section \<open>The operations keep the invariant\<close>

lemma transport_config_frame [simp]:
  "transport_config_ok (s\<lparr>m_active_flows := fs\<rparr>) = transport_config_ok s"
  "transport_config_ok (s\<lparr>m_flow_stats := st\<rparr>) = transport_config_ok s"
  "transport_config_ok (s\<lparr>flow_last_stats_update := t\<rparr>) = transport_config_ok s"
  "transport_config_ok (s\<lparr>flow_last_cleanup := t\<rparr>) = transport_config_ok s"
  "transport_config_ok (s\<lparr>flow_last_report := t\<rparr>) = transport_config_ok s"
  by (simp_all add: transport_config_ok_def)

lemma flow_inv_assign_flow:
  assumes "flow_inv E s" and "um_find (m_active_flows s) fid \<noteq> None"
  shows "flow_inv E (s\<lparr>m_active_flows := um_assign fid fl (m_active_flows s)\<rparr>)"
proof -
  have "length (um_assign fid fl (m_active_flows s)) = length (m_active_flows s)"
    using um.size_assign_old [OF flow_invD(2) [OF assms(1)] assms(2)] by simp
  then show ?thesis
    using assms unfolding flow_inv_def by (simp add: um_wf_assign um.dom_assign insert_absorb domIff)
qed

lemma flow_inv_assign_stats:
  assumes "flow_inv E s" and "um_find (m_active_flows s) fid \<noteq> None"
  shows "flow_inv E (s\<lparr>m_flow_stats := um_assign fid st (m_flow_stats s)\<rparr>)"
  using assms unfolding flow_inv_def by (simp add: um_wf_assign um.dom_assign insert_absorb domIff)

lemma createFlow_inv:
  assumes "flow_inv E s"
  shows "flow_inv E (createFlow now fid mode s)"
proof (cases "unat (m_max_flows s) \<le> length (m_active_flows s) \<or> um_find (m_active_flows s) fid \<noteq> None")
  case True
  with assms show ?thesis by (auto simp: createFlow_def)
next
  case False
  then have "length (um_assign fid fl (m_active_flows s)) \<le> 10000000" for fl :: "'a UEFlowState"
    using um.size_assign_new [OF flow_invD(2) [OF assms], of fid fl] flow_invD(1) [OF assms]
    by (simp add: transport_config_ok_def)
  with False assms show ?thesis
    unfolding flow_inv_def by (auto simp: createFlow_def um_wf_assign um.dom_assign simp del: not_None_eq)
qed

lemma removeFlow_inv:
  assumes "flow_inv E s"
  shows "flow_inv E (removeFlow E fid s)"
proof -
  have "length (um_erase fid (m_active_flows s)) \<le> 10000000"
    using um.size_erase [OF flow_invD(2) [OF assms], of fid] flow_invD(5) [OF assms] by simp
  moreover have "dom (published (flow_io s @ [Db_del STATE_DB (stats_key E fid)]) STATE_DB) =
      dom (published (flow_io s) STATE_DB) - {stats_key E fid}"
    by (auto simp: dom_def split: if_splits)
  then have "dom (published (flow_io s @ [Db_del STATE_DB (stats_key E fid)]) STATE_DB)
      \<subseteq> stats_key E ` (dom (um_find (m_active_flows s)) - {fid})"
    using flow_invD(6) [OF assms] by auto
  ultimately show ?thesis
    using assms unfolding flow_inv_def removeFlow_def by (simp add: um_wf_erase um.dom_erase)
qed

lemma updateFlowState_inv: "flow_inv E s \<Longrightarrow> flow_inv E (updateFlowState now fid st s)"
  by (auto simp: updateFlowState_def intro: flow_inv_assign_flow split: option.split)

lemma enablePacketSpraying_inv: "flow_inv E s \<Longrightarrow> out_all (flow_inv E) (enablePacketSpraying fid n s)"
  by (auto simp: enablePacketSpraying_def intro: flow_inv_assign_flow split: option.split)

lemma updateFlowPaths_inv: "flow_inv E s \<Longrightarrow> flow_inv E (updateFlowPaths fid ws s)"
  by (auto simp: updateFlowPaths_def intro: flow_inv_assign_flow split: option.split)

lemma updateFlowRTT_inv: "flow_inv E s \<Longrightarrow> flow_inv E (updateFlowRTT fid r s)"
  using flow_invD(4) [of E s]
  by (auto simp: updateFlowRTT_def intro!: flow_inv_assign_stats split: option.split)

lemma flow_inv_count:
  assumes "flow_inv E s" and "um_find (m_active_flows s) fid \<noteq> None"
  shows "flow_inv E (s\<lparr>m_flow_stats := um_modify d fid g (m_flow_stats s),
      m_active_flows := um_assign fid fl (m_active_flows s)\<rparr>)"
  using flow_inv_assign_flow [OF flow_inv_assign_stats [OF assms]] assms(2) by (simp add: um_modify_def)

lemma processIncomingPacket_inv:
  "flow_inv E s \<Longrightarrow> out_all (flow_inv E) (processIncomingPacket now now' packet len s)"
  by (simp add: processIncomingPacket_def Let_def createFlow_inv flow_inv_count split: sum.split option.split)

section \<open>Clean-up\<close>

lemma cleanup_from_Cons:
  "cleanup_from E now (fid # it) s =
     cleanup_from E now it (if flow_expired now s fid then removeFlow E fid s else s)"
proof -
  have "(let s1 = s\<lparr>m_flow_stats := um_erase fid (m_flow_stats s)\<rparr>;
             s2 = flow_emit (Db_del STATE_DB (stats_key E fid)) s1
         in s2\<lparr>m_active_flows := um_erase fid (m_active_flows s2)\<rparr>) = removeFlow E fid s"
    by (simp add: removeFlow_def flow_emit_def Let_def)
  then show ?thesis by (simp add: Let_def)
qed

lemma removeFlow_frame [simp]:
  "m_active_flows (removeFlow E fid s) = um_erase fid (m_active_flows s)"
  "m_flow_stats (removeFlow E fid s) = um_erase fid (m_flow_stats s)"
  "m_flow_timeout_sec (removeFlow E fid s) = m_flow_timeout_sec s"
  "flow_last_stats_update (removeFlow E fid s) = flow_last_stats_update s"
  "flow_last_cleanup (removeFlow E fid s) = flow_last_cleanup s"
  by (simp_all add: removeFlow_def)

lemma flow_expired_remove:
  "flow_expired now (removeFlow E fid' s) fid \<longleftrightarrow> fid \<noteq> fid' \<and> flow_expired now s fid"
  by (simp add: flow_expired_def um_find_erase split: option.split)

lemma cleanup_from_frame [simp]:
  "flow_last_stats_update (cleanup_from E now ks s) = flow_last_stats_update s"
  "flow_last_cleanup (cleanup_from E now ks s) = flow_last_cleanup s"
  "m_flow_timeout_sec (cleanup_from E now ks s) = m_flow_timeout_sec s"
  by (induction ks arbitrary: s) (simp_all add: cleanup_from_Cons del: cleanup_from.simps(2))

lemma cleanup_from_find:
  "um_find (m_active_flows (cleanup_from E now ks s)) fid =
     (if fid \<in> set ks \<and> flow_expired now s fid then None else um_find (m_active_flows s) fid) \<and>
   um_find (m_flow_stats (cleanup_from E now ks s)) fid =
     (if fid \<in> set ks \<and> flow_expired now s fid then None else um_find (m_flow_stats s) fid)"
  by (induction ks arbitrary: s)
    (auto simp: cleanup_from_Cons flow_expired_remove um_find_erase simp del: cleanup_from.simps(2))

lemma cleanup_find:
  "um_find (m_active_flows (cleanupExpiredFlows E now s)) fid =
     (if flow_expired now s fid then None else um_find (m_active_flows s) fid)"
  "um_find (m_flow_stats (cleanupExpiredFlows E now s)) fid =
     (if flow_expired now s fid then None else um_find (m_flow_stats s) fid)"
  using cleanup_from_find [of E now "um_keys (m_active_flows s)" s fid]
  by (auto simp: cleanupExpiredFlows_def um_keys_find flow_expired_def split: option.splits)

lemma cleanup_inv: "flow_inv E s \<Longrightarrow> flow_inv E (cleanupExpiredFlows E now s)"
proof -
  have "flow_inv E s \<Longrightarrow> flow_inv E (cleanup_from E now ks s)" for ks
    by (induction ks arbitrary: s)
      (simp_all add: cleanup_from_Cons removeFlow_inv del: cleanup_from.simps(2))
  then show "flow_inv E s \<Longrightarrow> flow_inv E (cleanupExpiredFlows E now s)"
    by (simp add: cleanupExpiredFlows_def)
qed

section \<open>Statistics\<close>

lemma publish_flow_frame [simp]:
  "m_active_flows (publish_flow E fid s) = m_active_flows s"
  "m_flow_stats (publish_flow E fid s) = m_flow_stats s"
  "flow_last_stats_update (publish_flow E fid s) = flow_last_stats_update s"
  "flow_last_cleanup (publish_flow E fid s) = flow_last_cleanup s"
  "flow_io (publish_flow E fid s) =
     flow_io s @ [Db_set STATE_DB (stats_key E fid) (flow_stats_fvs (um_at zero_flow_stats (m_flow_stats s) fid))]"
  "transport_config_ok (publish_flow E fid s) = transport_config_ok s"
  "m_flow_timeout_sec (publish_flow E fid s) = m_flow_timeout_sec s"
  "m_max_flows (publish_flow E fid s) = m_max_flows s"
  "m_default_flow_mode (publish_flow E fid s) = m_default_flow_mode s"
  "m_default_window_size (publish_flow E fid s) = m_default_window_size s"
  by (simp_all add: publish_flow_def)

interpretation flow_stats_loop: loop_body m_flow_stats
  "\<lambda>fid s. Normal (publish_flow E fid s)" "publish_flow E" for E
  by unfold_locales simp_all

definition publish_flows ::
  "flow_env \<Rightarrow> UEFlowId list \<Rightarrow> ('p::len, 'c::len, 'r::len) flow_state \<Rightarrow> ('p, 'c, 'r) flow_state" where
  "publish_flows E fids s = foldl (\<lambda>s fid. publish_flow E fid s) s fids"

lemma updateFlowStatistics_fold:
  "updateFlowStatistics E s = Normal (publish_flows E (um_keys (m_flow_stats s)) s)"
  by (simp add: updateFlowStatistics_def publish_flows_def flow_stats_loop.loop_fold)

lemma publish_flows_frame [simp]:
  "m_active_flows (publish_flows E fids s) = m_active_flows s"
  "m_flow_stats (publish_flows E fids s) = m_flow_stats s"
  "flow_last_stats_update (publish_flows E fids s) = flow_last_stats_update s"
  "flow_last_cleanup (publish_flows E fids s) = flow_last_cleanup s"
  "transport_config_ok (publish_flows E fids s) = transport_config_ok s"
  "m_flow_timeout_sec (publish_flows E fids s) = m_flow_timeout_sec s"
  "m_max_flows (publish_flows E fids s) = m_max_flows s"
  "m_default_flow_mode (publish_flows E fids s) = m_default_flow_mode s"
  "m_default_window_size (publish_flows E fids s) = m_default_window_size s"
  unfolding publish_flows_def by (induction fids arbitrary: s) simp_all

lemma publish_flows_inv:
  "flow_inv E s \<Longrightarrow> set fids \<subseteq> dom (um_find (m_flow_stats s)) \<Longrightarrow> flow_inv E (publish_flows E fids s)"
proof (induction fids arbitrary: s)
  case Nil
  then show ?case by (simp add: publish_flows_def)
next
  case (Cons fid fids)
  have "dom (published (flow_io s) STATE_DB) \<subseteq> stats_key E ` dom (um_find (m_active_flows s))"
    by (rule flow_invD(6) [OF Cons.prems(1)])
  moreover have "fid \<in> dom (um_find (m_active_flows s))"
    using Cons.prems flow_invD(4) [OF Cons.prems(1)] by auto
  ultimately have "dom (published (flow_io (publish_flow E fid s)) STATE_DB)
      \<subseteq> stats_key E ` dom (um_find (m_active_flows s))"
    by (auto simp: dom_def split: if_splits)
  then have "flow_inv E (publish_flow E fid s)"
    using Cons.prems(1) unfolding flow_inv_def by (simp del: publish_flow_frame(5))
  with Cons show ?case by (simp add: publish_flows_def)
qed

lemma updateFlowStatistics_inv: "flow_inv E s \<Longrightarrow> out_all (flow_inv E) (updateFlowStatistics E s)"
  by (simp add: updateFlowStatistics_fold publish_flows_inv um_keys_find subset_eq domIff)

text \<open>After a pass, each statistics key of the pass holds the statistics of its flow.\<close>

lemma publish_flows_published:
  assumes "\<forall>g \<in> set fids. stats_key E g = stats_key E fid \<longrightarrow> g = fid"
  shows "published (flow_io (publish_flows E fids s)) STATE_DB (stats_key E fid) =
    (if fid \<in> set fids then Some (flow_stats_fvs (um_at zero_flow_stats (m_flow_stats s) fid))
     else published (flow_io s) STATE_DB (stats_key E fid))"
  using assms
proof (induction fids arbitrary: s)
  case Nil
  then show ?case by (simp add: publish_flows_def)
next
  case (Cons g fids)
  then have IH: "published (flow_io (publish_flows E fids (publish_flow E g s))) STATE_DB (stats_key E fid) =
    (if fid \<in> set fids then Some (flow_stats_fvs (um_at zero_flow_stats (m_flow_stats s) fid))
     else published (flow_io (publish_flow E g s)) STATE_DB (stats_key E fid))"
    by simp
  have "publish_flows E (g # fids) s = publish_flows E fids (publish_flow E g s)"
    by (simp add: publish_flows_def)
  then have eq: "flow_io (publish_flows E (g # fids) s) = flow_io (publish_flows E fids (publish_flow E g s))"
    by (rule arg_cong)
  show ?case
  proof (cases "g = fid")
    case True
    show ?thesis unfolding eq IH by (simp add: True)
  next
    case False
    with Cons.prems have "stats_key E g \<noteq> stats_key E fid" by auto
    then show ?thesis unfolding eq IH using False by simp
  qed
qed

text \<open>Without two flows of one key, the entry of a flow is exactly its statistics.\<close>

lemma statistics_mirror:
  assumes inv: "flow_inv E s" and "\<forall>g. um_find (m_flow_stats s) g \<noteq> None \<longrightarrow> ip_version g = 4"
    and "ip_version fid = 4"
  shows "\<exists>s'. updateFlowStatistics E s = Normal s' \<and> m_flow_stats s' = m_flow_stats s \<and>
    published (flow_io s') STATE_DB (stats_key E fid) =
      map_option flow_stats_fvs (um_find (m_flow_stats s) fid)"
proof -
  have key: "g = fid" if "ip_version g = 4" "stats_key E g = stats_key E fid" for g
    using that assms(3) by (simp add: stats_key_def flow_stats_key_eq_iff)
  have keys: "g \<in> set (um_keys (m_flow_stats s)) \<longleftrightarrow> um_find (m_flow_stats s) g \<noteq> None" for g
    by (rule um_keys_find)
  have "published (flow_io (publish_flows E (um_keys (m_flow_stats s)) s)) STATE_DB (stats_key E fid) =
    (if fid \<in> set (um_keys (m_flow_stats s))
     then Some (flow_stats_fvs (um_at zero_flow_stats (m_flow_stats s) fid))
     else published (flow_io s) STATE_DB (stats_key E fid))"
    by (rule publish_flows_published) (use key assms(2) keys in blast)
  moreover have "published (flow_io s) STATE_DB (stats_key E fid) = None"
    if "um_find (m_flow_stats s) fid = None"
  proof (rule ccontr)
    assume "published (flow_io s) STATE_DB (stats_key E fid) \<noteq> None"
    then obtain g where "stats_key E g = stats_key E fid" and g: "um_find (m_active_flows s) g \<noteq> None"
      using flow_invD(6) [OF inv] by fastforce
    moreover have "um_find (m_flow_stats s) g \<noteq> None"
      using g flow_invD(4) [OF inv] by (simp only: domIff [symmetric] simp_thms)
    ultimately have "g = fid" using key assms(2) by blast
    with \<open>um_find (m_flow_stats s) g \<noteq> None\<close> that show False by simp
  qed
  ultimately have "published (flow_io (publish_flows E (um_keys (m_flow_stats s)) s)) STATE_DB (stats_key E fid) =
      map_option flow_stats_fvs (um_find (m_flow_stats s) fid)"
    by (cases "um_find (m_flow_stats s) fid") (simp_all add: keys um_at_def)
  then show ?thesis by (simp add: updateFlowStatistics_fold)
qed

section \<open>The periodic task and runs of operations\<close>

lemma flow_inv_stamps [simp]:
  "flow_inv E (s\<lparr>flow_last_stats_update := t\<rparr>) = flow_inv E s"
  "flow_inv E (s\<lparr>flow_last_cleanup := t\<rparr>) = flow_inv E s"
  "flow_inv E (s\<lparr>flow_last_report := t\<rparr>) = flow_inv E s"
  by (simp_all add: flow_inv_def)

lemma flow_doPeriodicTask_inv: "flow_inv E s \<Longrightarrow> out_all (flow_inv E) (flow_doPeriodicTask E now now' s)"
  using updateFlowStatistics_inv [of E s]
  by (simp add: flow_doPeriodicTask_def Let_def updateFlowStatistics_fold cleanup_inv)

lemma cleanup_frame [simp]:
  "flow_last_stats_update (cleanupExpiredFlows E now s) = flow_last_stats_update s"
  "flow_last_cleanup (cleanupExpiredFlows E now s) = flow_last_cleanup s"
  by (simp_all add: cleanupExpiredFlows_def)

lemma flow_periodic_stamps:
  assumes "flow_doPeriodicTask E now now' s = Normal s'"
  shows "flow_last_stats_update s' = (if 1 \<le> now - flow_last_stats_update s then now else flow_last_stats_update s)"
    and "flow_last_cleanup s' = (if 60 \<le> now - flow_last_cleanup s then now else flow_last_cleanup s)"
proof -
  define s1 where "s1 =
    (if 1 \<le> now - flow_last_stats_update s
     then (publish_flows E (um_keys (m_flow_stats s)) s)\<lparr>flow_last_stats_update := now\<rparr> else s)"
  define s2 where "s2 =
    (if 60 \<le> now - flow_last_cleanup s1
     then (cleanupExpiredFlows E now' s1)\<lparr>flow_last_cleanup := now\<rparr> else s1)"
  have "flow_doPeriodicTask E now now' s =
      Normal (if 300 \<le> now - flow_last_report s2 then s2\<lparr>flow_last_report := now\<rparr> else s2)"
    unfolding flow_doPeriodicTask_def updateFlowStatistics_fold s2_def s1_def Let_def
    by (cases "1 \<le> now - flow_last_stats_update s") (simp_all only: if_True if_False out_bind.simps)
  with assms have s': "s' = (if 300 \<le> now - flow_last_report s2 then s2\<lparr>flow_last_report := now\<rparr> else s2)"
    by simp
  have s1: "flow_last_stats_update s1 =
      (if 1 \<le> now - flow_last_stats_update s then now else flow_last_stats_update s)"
    "flow_last_cleanup s1 = flow_last_cleanup s"
    by (simp_all add: s1_def)
  show "flow_last_stats_update s' = (if 1 \<le> now - flow_last_stats_update s then now else flow_last_stats_update s)"
    and "flow_last_cleanup s' = (if 60 \<le> now - flow_last_cleanup s then now else flow_last_cleanup s)"
    unfolding s' by (simp_all add: s2_def s1)
qed

text \<open>What a periodic call does to one flow.\<close>

lemma flow_periodic_flow:
  "\<exists>s'. flow_doPeriodicTask E now now' s = Normal s' \<and>
    um_find (m_active_flows s') fid =
      (if 60 \<le> now - flow_last_cleanup s \<and> flow_expired now' s fid then None
       else um_find (m_active_flows s) fid) \<and>
    m_flow_timeout_sec s' = m_flow_timeout_sec s"
proof -
  define s1 where "s1 =
    (if 1 \<le> now - flow_last_stats_update s
     then (publish_flows E (um_keys (m_flow_stats s)) s)\<lparr>flow_last_stats_update := now\<rparr> else s)"
  have s1: "m_active_flows s1 = m_active_flows s" "m_flow_timeout_sec s1 = m_flow_timeout_sec s"
      "flow_last_cleanup s1 = flow_last_cleanup s" "flow_expired now' s1 fid = flow_expired now' s fid"
    by (cases "um_find (m_active_flows s) fid"; simp add: s1_def flow_expired_def)+
  have timeout: "m_flow_timeout_sec (cleanupExpiredFlows E now' s1) = m_flow_timeout_sec s1"
    by (simp add: cleanupExpiredFlows_def)
  have "flow_doPeriodicTask E now now' s =
      (let s2 = (if 60 \<le> now - flow_last_cleanup s1
                 then (cleanupExpiredFlows E now' s1)\<lparr>flow_last_cleanup := now\<rparr> else s1)
       in Normal (if 300 \<le> now - flow_last_report s2 then s2\<lparr>flow_last_report := now\<rparr> else s2))"
    unfolding flow_doPeriodicTask_def updateFlowStatistics_fold s1_def
    by (cases "1 \<le> now - flow_last_stats_update s") (simp_all only: if_True if_False out_bind.simps)
  then show ?thesis
    by (simp add: Let_def cleanup_find s1 timeout)
qed

lemma flow_periodic_returns: "returns (flow_doPeriodicTask E now now' s)"
  using flow_periodic_flow [of E now now' s undefined] by auto

interpretation flow_stats_timer: live_job
  "\<lambda>now. flow_doPeriodicTask E now (now + d now)" flow_last_stats_update 1 horizon for E d horizon
  by unfold_locales (simp_all add: flow_periodic_stamps flow_periodic_returns)

interpretation flow_cleanup_timer: live_job
  "\<lambda>now. flow_doPeriodicTask E now (now + d now)" flow_last_cleanup 60 horizon for E d horizon
  by unfold_locales (simp_all add: flow_periodic_stamps flow_periodic_returns)

text \<open>
  A run of periodic calls at the times \<open>ts\<close>, and what it should be: a timer alone decides from
  the times at which calls its job is due, and exactly then the job is done.
\<close>

fun flow_ticks ::
  "flow_env \<Rightarrow> (int \<Rightarrow> int) \<Rightarrow> int list \<Rightarrow> ('p::len, 'c::len, 'r::len) flow_state \<Rightarrow> ('p, 'c, 'r) flow_state outcome" where
  "flow_ticks E d [] s = Normal s"
| "flow_ticks E d (t # ts) s = out_bind (flow_doPeriodicTask E t (t + d t) s) (flow_ticks E d ts)"

fun due :: "int \<Rightarrow> int \<Rightarrow> int list \<Rightarrow> bool list" where
  "due period last_run [] = []"
| "due period last_run (t # ts) =
     (if period \<le> t - last_run then True # due period t ts else False # due period last_run ts)"

fun flow_jobs ::
  "flow_env \<Rightarrow> (int \<Rightarrow> int) \<Rightarrow> int list \<Rightarrow> bool list \<Rightarrow> bool list \<Rightarrow>
   ('p::len, 'c::len, 'r::len) flow_state \<Rightarrow> ('p, 'c, 'r) flow_state outcome" where
  "flow_jobs E d (t # ts) (report # reports) (clean # cleans) s =
     out_bind (if report then updateFlowStatistics E s else Normal s)
       (\<lambda>s1. flow_jobs E d ts reports cleans (if clean then cleanupExpiredFlows E (t + d t) s1 else s1))"
| "flow_jobs E d _ _ _ s = Normal s"

text \<open>The times at which a job is due.\<close>

definition due_times :: "int \<Rightarrow> int \<Rightarrow> int list \<Rightarrow> int list" where
  "due_times period last_run ts = map fst (filter snd (zip ts (due period last_run ts)))"

lemma due_times_simps:
  "due_times period last_run [] = []"
  "due_times period last_run (t # ts) =
     (if period \<le> t - last_run then t # due_times period t ts else due_times period last_run ts)"
  by (simp_all add: due_times_def)

lemma fire_times_due_stats:
  "fire_times (\<lambda>now. flow_doPeriodicTask E now (now + d now)) flow_last_stats_update 1 ts s =
     due_times 1 (flow_last_stats_update s) ts"
proof (induction ts arbitrary: s)
  case (Cons t ts)
  obtain s' where s': "flow_doPeriodicTask E t (t + d t) s = Normal s'"
    using flow_periodic_flow [of E t "t + d t" s undefined] by blast
  show ?case by (simp add: s' Cons.IH due_times_simps flow_periodic_stamps [OF s'])
qed (simp add: due_times_simps)

lemma fire_times_due_cleanup:
  "fire_times (\<lambda>now. flow_doPeriodicTask E now (now + d now)) flow_last_cleanup 60 ts s =
     due_times 60 (flow_last_cleanup s) ts"
proof (induction ts arbitrary: s)
  case (Cons t ts)
  obtain s' where s': "flow_doPeriodicTask E t (t + d t) s = Normal s'"
    using flow_periodic_flow [of E t "t + d t" s undefined] by blast
  show ?case by (simp add: s' Cons.IH due_times_simps flow_periodic_stamps [OF s'])
qed (simp add: due_times_simps)

lemmas fire_times_due = fire_times_due_stats fire_times_due_cleanup

text \<open>The tables, the trace and the timeout are what the jobs work on.\<close>

definition same_flows :: "('p::len, 'c::len, 'r::len) flow_state \<Rightarrow> ('p, 'c, 'r) flow_state \<Rightarrow> bool" where
  "same_flows s t \<longleftrightarrow>
     m_active_flows s = m_active_flows t \<and> m_flow_stats s = m_flow_stats t \<and>
     flow_io s = flow_io t \<and> m_flow_timeout_sec s = m_flow_timeout_sec t"

lemma flow_expired_cong: "same_flows s t \<Longrightarrow> flow_expired now s fid = flow_expired now t fid"
  by (cases "um_find (m_active_flows t) fid") (simp_all add: same_flows_def flow_expired_def)

lemma publish_flows_cong: "same_flows s t \<Longrightarrow> same_flows (publish_flows E fids s) (publish_flows E fids t)"
  unfolding publish_flows_def
  by (induction fids arbitrary: s t) (simp_all add: same_flows_def publish_flow_def)

lemma cleanup_from_cong: "same_flows s t \<Longrightarrow> same_flows (cleanup_from E now ks s) (cleanup_from E now ks t)"
proof (induction ks arbitrary: s t)
  case (Cons fid ks)
  then have "same_flows (removeFlow E fid s) (removeFlow E fid t)"
    by (simp add: same_flows_def removeFlow_def)
  with Cons show ?case by (simp add: cleanup_from_Cons flow_expired_cong del: cleanup_from.simps(2))
qed simp

lemma tick_jobs:
  assumes "same_flows s t"
  shows "\<exists>s' t1. flow_doPeriodicTask E now now' s = Normal s' \<and>
    (if 1 \<le> now - flow_last_stats_update s then updateFlowStatistics E t else Normal t) = Normal t1 \<and>
    same_flows s' (if 60 \<le> now - flow_last_cleanup s then cleanupExpiredFlows E now' t1 else t1)"
proof -
  define s1 where "s1 =
    (if 1 \<le> now - flow_last_stats_update s
     then (publish_flows E (um_keys (m_flow_stats s)) s)\<lparr>flow_last_stats_update := now\<rparr> else s)"
  define s2 where "s2 =
    (if 60 \<le> now - flow_last_cleanup s1
     then (cleanupExpiredFlows E now' s1)\<lparr>flow_last_cleanup := now\<rparr> else s1)"
  define t1 where "t1 = (if 1 \<le> now - flow_last_stats_update s then publish_flows E (um_keys (m_flow_stats t)) t else t)"
  have run: "flow_doPeriodicTask E now now' s =
      Normal (if 300 \<le> now - flow_last_report s2 then s2\<lparr>flow_last_report := now\<rparr> else s2)"
    unfolding flow_doPeriodicTask_def updateFlowStatistics_fold s2_def s1_def Let_def
    by (cases "1 \<le> now - flow_last_stats_update s") (simp_all only: if_True if_False out_bind.simps)
  have keys: "m_flow_stats s = m_flow_stats t" using assms by (simp add: same_flows_def)
  have same1: "same_flows s1 t1"
    using assms publish_flows_cong [OF assms, of E "um_keys (m_flow_stats t)"]
    by (simp add: s1_def t1_def keys) (simp add: same_flows_def)
  then have "same_flows (cleanupExpiredFlows E now' s1) (cleanupExpiredFlows E now' t1)"
    using cleanup_from_cong [OF same1, of E now' "um_keys (m_active_flows t1)"]
    by (simp add: cleanupExpiredFlows_def same_flows_def)
  then have "same_flows s2 (if 60 \<le> now - flow_last_cleanup s then cleanupExpiredFlows E now' t1 else t1)"
    using same1 by (simp add: s2_def) (simp add: s1_def same_flows_def)
  then have "same_flows (if 300 \<le> now - flow_last_report s2 then s2\<lparr>flow_last_report := now\<rparr> else s2)
      (if 60 \<le> now - flow_last_cleanup s then cleanupExpiredFlows E now' t1 else t1)"
    by (simp add: same_flows_def)
  moreover have "(if 1 \<le> now - flow_last_stats_update s then updateFlowStatistics E t else Normal t) = Normal t1"
    by (simp add: t1_def updateFlowStatistics_fold)
  ultimately show ?thesis using run by blast
qed

lemma ticks_jobs:
  assumes "same_flows s t"
  shows "\<exists>s' t'. flow_ticks E d ts s = Normal s' \<and>
    flow_jobs E d ts (due 1 (flow_last_stats_update s) ts) (due 60 (flow_last_cleanup s) ts) t = Normal t' \<and>
    same_flows s' t'"
  using assms
proof (induction ts arbitrary: s t)
  case Nil
  then show ?case by simp
next
  case (Cons u ts)
  obtain s1 t1 where 1: "flow_doPeriodicTask E u (u + d u) s = Normal s1"
      "(if 1 \<le> u - flow_last_stats_update s then updateFlowStatistics E t else Normal t) = Normal t1"
      "same_flows s1 (if 60 \<le> u - flow_last_cleanup s then cleanupExpiredFlows E (u + d u) t1 else t1)"
    using tick_jobs [OF Cons.prems, of E u "u + d u"] by blast
  from Cons.IH [OF 1(3)] 1(1,2) show ?case
    by (auto simp: flow_periodic_stamps [OF 1(1)] split: if_splits)
qed

text \<open>One operation of the manager that returned, and what any number of them reach.\<close>

inductive flow_step ::
  "flow_env \<Rightarrow> ('p::len, 'c::len, 'r::len) flow_state \<Rightarrow> ('p, 'c, 'r) flow_state \<Rightarrow> bool" for E where
  "flow_doTask E c s ts = (Normal s', rest) \<Longrightarrow> flow_step E s s'"
| "processIncomingPacket now now' packet len s = Normal s' \<Longrightarrow> flow_step E s s'"
| "flow_step E s (createFlow now fid mode s)"
| "flow_step E s (removeFlow E fid s)"
| "flow_step E s (updateFlowState now fid st s)"
| "enablePacketSpraying fid n s = Normal s' \<Longrightarrow> flow_step E s s'"
| "flow_step E s (updateFlowPaths fid ws s)"
| "flow_step E s (updateFlowRTT fid r s)"
| "updateFlowStatistics E s = Normal s' \<Longrightarrow> flow_step E s s'"
| "flow_step E s (cleanupExpiredFlows E now s)"
| "flow_doPeriodicTask E now now' s = Normal s' \<Longrightarrow> flow_step E s s'"

inductive flow_reachable :: "flow_env \<Rightarrow> ('p::len, 'c::len, 'r::len) flow_state \<Rightarrow> bool" for E where
  init: "flow_reachable E UEFlowManager"
| step: "flow_reachable E s \<Longrightarrow> flow_step E s s' \<Longrightarrow> flow_reachable E s'"

lemma flow_step_inv: "flow_step E s s' \<Longrightarrow> flow_inv E s \<Longrightarrow> flow_inv E s'"
proof (induction rule: flow_step.induct)
  case (1 c s ts s' rest)
  then show ?case
    using flow_tasks.drain_inv_Normal [of E s c ts s' rest] by (simp add: flow_doTask_def)
next
  case (2 now now' packet len s s')
  then show ?case using processIncomingPacket_inv [of E s now now' packet len] by simp
next
  case (6 fid n s s')
  then show ?case using enablePacketSpraying_inv [of E s fid n] by simp
next
  case (9 s s')
  then show ?case using updateFlowStatistics_inv [of E s] by simp
next
  case (11 now now' s s')
  then show ?case using flow_doPeriodicTask_inv [of E s now now'] by simp
qed (simp_all add: createFlow_inv removeFlow_inv updateFlowState_inv updateFlowPaths_inv
    updateFlowRTT_inv cleanup_inv)

lemma flow_reachable_flow_inv: "flow_reachable E s \<Longrightarrow> flow_inv E s"
  by (induction rule: flow_reachable.induct) (blast intro: flow_inv_init flow_step_inv)+

section \<open>Round-trip times\<close>

definition rtt_updates :: "32 word list \<Rightarrow> ('c::len, 'r::len) UEFlowStats \<Rightarrow> ('c, 'r) UEFlowStats" where
  "rtt_updates rs st = foldl (\<lambda>st r. rtt_update r st) st rs"

definition rtt_ok :: "nat \<Rightarrow> nat \<Rightarrow> ('c::len, 'r::len) UEFlowStats \<Rightarrow> bool" where
  "rtt_ok lo hi st \<longleftrightarrow>
     0 < lo \<and> hi < 2 ^ 29 \<and> unat (min_rtt_us st) = lo \<and> unat (max_rtt_us st) = hi \<and>
     lo \<le> unat (avg_rtt_us st) \<and> unat (avg_rtt_us st) \<le> hi"

lemma unat_ucast_wide:
  assumes "32 \<le> LENGTH('r::len)"
  shows "unat (ucast (w :: 32 word) :: 'r word) = unat w"
proof -
  have "(2::nat) ^ 32 \<le> 2 ^ LENGTH('r)" using assms by (rule power_increasing) simp
  then have "unat w < 2 ^ LENGTH('r)" using unat_bound [of w] by simp
  then show ?thesis by (simp add: unsigned_ucast_eq take_bit_nat_eq_self)
qed

lemma rtt_average:
  fixes a r :: "'r::len word"
  assumes "32 \<le> LENGTH('r)" and "unat a < 2 ^ 29" and "unat r < 2 ^ 29"
  shows "unat ((a * 7 + r) div 8) = (unat a * 7 + unat r) div 8"
proof -
  have w: "(2::nat) ^ 32 \<le> 2 ^ LENGTH('r)" using assms(1) by (rule power_increasing) simp
  have small: "unat (of_nat k :: 'r word) = k" if "k < 2 ^ 32" for k
    using that w by (simp add: unat_of_nat take_bit_nat_eq_self)
  have k: "take_bit LENGTH('r) (7 :: nat) = 7" "take_bit LENGTH('r) (8 :: nat) = 8"
    using small [of 7] small [of 8] by simp_all
  have "unat (a * 7) = unat a * 7"
    using assms(2) w by (subst unat_mult_no_wrap) (simp_all add: k)
  then have "unat (a * 7 + r) = unat a * 7 + unat r"
    using assms(2,3) w by (subst unat_add_no_wrap) simp_all
  then show ?thesis by (simp add: unat_div k)
qed

lemma rtt_first:
  assumes "32 \<le> LENGTH('r::len)" and "0 < unat r" and "unat r < 2 ^ 29"
  shows "rtt_ok (unat r) (unat r) (rtt_update r (zero_flow_stats :: ('c::len, 'r) UEFlowStats))"
  using assms(2,3)
  by (simp add: rtt_update_def zero_flow_stats_def rtt_ok_def Let_def unat_ucast_wide [OF assms(1)]
      word_less_nat_alt)

lemma rtt_next:
  fixes st :: "('c::len, 'r::len) UEFlowStats"
  assumes "32 \<le> LENGTH('r)" and "rtt_ok lo hi st" and "0 < unat r" and "unat r < 2 ^ 29"
  shows "rtt_ok (min lo (unat r)) (max hi (unat r)) (rtt_update r st)"
proof -
  note u = unat_ucast_wide [OF assms(1)]
  from assms(2) have nz: "min_rtt_us st \<noteq> 0" "avg_rtt_us st \<noteq> 0"
    by (auto simp: rtt_ok_def)
  have "unat ((avg_rtt_us st * 7 + ucast r) div 8) = (unat (avg_rtt_us st) * 7 + unat r) div 8"
    using assms by (subst rtt_average) (simp_all add: u rtt_ok_def)
  then show ?thesis
    using assms(2-4) nz
    by (auto simp: rtt_update_def rtt_ok_def Let_def u word_less_nat_alt)
qed

lemma rtt_updates_ok:
  fixes st :: "('c::len, 'r::len) UEFlowStats"
  assumes "32 \<le> LENGTH('r)" and "rtt_ok lo hi st" and "\<forall>r \<in> set rs. 0 < unat r \<and> unat r < 2 ^ 29"
  shows "rtt_ok (Min (insert lo (unat ` set rs))) (Max (insert hi (unat ` set rs))) (rtt_updates rs st)"
  using assms(2,3)
proof (induction rs arbitrary: lo hi st)
  case Nil
  then show ?case by (simp add: rtt_updates_def)
next
  case (Cons r rs)
  have "rtt_ok (min lo (unat r)) (max hi (unat r)) (rtt_update r st)"
    using Cons.prems by (intro rtt_next [OF assms(1)]) simp_all
  from Cons.IH [OF this] Cons.prems(2) show ?case
    by (cases rs) (simp_all add: rtt_updates_def min.assoc max.assoc)
qed

lemma rtt_updates_current:
  "rs \<noteq> [] \<Longrightarrow> current_rtt_us (rtt_updates rs st) = ucast (last rs)"
  by (induction rs rule: rev_induct) (simp_all add: rtt_updates_def rtt_update_def Let_def)

section \<open>Spraying\<close>

definition flow_weights :: "('p::len, 'c::len, 'r::len) flow_state \<Rightarrow> UEFlowId \<Rightarrow> 32 word list" where
  "flow_weights s fid =
     (case um_find (m_active_flows s) fid of None \<Rightarrow> [] | Some fl \<Rightarrow> fl_path_weights fl)"

lemma equal_weight: "unat (100 div ucast (n :: 8 word) :: 32 word) = 100 div unat n"
proof -
  have "unat n < 2 ^ 32" using unat_bound [of n] by simp
  then show ?thesis by (simp add: unat_div unsigned_ucast_eq take_bit_nat_eq_self)
qed

section \<open>Activity\<close>

lemma createFlow_frame [simp]: "m_flow_timeout_sec (createFlow now fid mode s) = m_flow_timeout_sec s"
  by (simp add: createFlow_def)

lemma createFlow_room:
  "um_find (m_active_flows s) fid = None \<Longrightarrow> length (m_active_flows s) < unat (m_max_flows s) \<Longrightarrow>
   um_find (m_active_flows (createFlow now fid mode s)) fid = Some (new_flow now fid mode (m_default_window_size s))"
  by (simp add: createFlow_def um_find_assign)

lemma packet_activity:
  assumes "parsePacketFlowId packet len = Inr fid" and "src_ip fid \<noteq> 0" and "dst_ip fid \<noteq> 0"
    and "um_find (m_active_flows s) fid \<noteq> None \<or> length (m_active_flows s) < unat (m_max_flows s)"
  shows "\<exists>s' fl. processIncomingPacket now now' packet len s = Normal s' \<and>
    um_find (m_active_flows s') fid = Some fl \<and> fl_last_activity fl = now' \<and>
    m_flow_timeout_sec s' = m_flow_timeout_sec s"
proof (cases "um_find (m_active_flows s) fid")
  case None
  with assms createFlow_room [OF None] show ?thesis
    by (simp add: processIncomingPacket_def Let_def um_find_assign)
next
  case (Some fl)
  with assms show ?thesis
    by (simp add: processIncomingPacket_def Let_def um_find_assign)
qed

section \<open>Examples\<close>

definition flow_ex_env :: flow_env where
  "flow_ex_env =
     \<lparr>APP_UE_FLOW_TABLE_NAME = ''UE_FLOW'', STATE_UE_FLOW_STATS_TABLE_NAME = ''UE_FLOW_STATS'',
      flow_mode_code = (\<lambda>m. case m of RELIABLE_UNORDERED_DELIVERY \<Rightarrow> 0 | RELIABLE_ORDERED_DELIVERY \<Rightarrow> 1
        | UNRELIABLE_UNORDERED_DELIVERY \<Rightarrow> 2 | RELIABLE_UNORDERED_DELIVERY_IDEMPOTENT \<Rightarrow> 3),
      flow_algorithm_code = (\<lambda>a. case a of UE_CUBIC \<Rightarrow> 0 | UE_CUBIC_PLUS \<Rightarrow> 1 | HYBRID \<Rightarrow> 2 | RECEIVER_BASED \<Rightarrow> 3)\<rparr>"

definition flow_ex :: "(32, 64, 32) flow_state" where
  "flow_ex = createFlow 100 flow_ex_id RELIABLE_ORDERED_DELIVERY UEFlowManager"

lemma flow_ex_reachable: "flow_reachable flow_ex_env flow_ex"
  unfolding flow_ex_def by (rule flow_reachable.step [OF flow_reachable.init]) (rule flow_step.intros)

lemma flow_ex_flows:
  "m_active_flows flow_ex = [(flow_ex_id, new_flow 100 flow_ex_id RELIABLE_ORDERED_DELIVERY 65536)]"
  "m_flow_stats flow_ex = [(flow_ex_id, zero_flow_stats)]"
  "m_flow_timeout_sec flow_ex = 300" "m_max_flows flow_ex = 1000000"
  by (simp_all add: flow_ex_def createFlow_def UEFlowManager_def container_eval)

section \<open>Properties\<close>

text \<open>
  Property C1: whatever the manager has done since its construction, the configuration is
  within its limits (a window of 1 KB to 1 MB, 1000 to 10 million flows, a timeout of 10 s
  to 1 h), the flow table and the statistics have exactly the same flows, never more than
  ten million, and every statistics key published in the state database belongs to an
  active flow: removal and expiry leave nothing stale behind.
\<close>

theorem flow_reachable_inv:
  assumes "flow_reachable E s"
  shows "transport_config_ok s \<and> um_wf (m_active_flows s) \<and>
    dom (um_find (m_flow_stats s)) = dom (um_find (m_active_flows s)) \<and>
    length (m_active_flows s) \<le> 10000000 \<and>
    dom (published (flow_io s) STATE_DB) \<subseteq> stats_key E ` dom (um_find (m_active_flows s))"
  using flow_reachable_flow_inv [OF assms] unfolding flow_inv_def by simp

theorem flow_reachable_inv_witness:
  "transport_config_ok flow_ex \<and> um_wf (m_active_flows flow_ex) \<and>
    dom (um_find (m_flow_stats flow_ex)) = dom (um_find (m_active_flows flow_ex)) \<and>
    length (m_active_flows flow_ex) \<le> 10000000 \<and>
    dom (published (flow_io flow_ex) STATE_DB) \<subseteq> stats_key flow_ex_env ` dom (um_find (m_active_flows flow_ex))"
  by (rule flow_reachable_inv [OF flow_ex_reachable])

text \<open>
  Property C27: no sequence of configuration tasks, however malformed, can block the flow
  manager: \<open>doTask\<close> always returns with its queue empty.
\<close>

theorem flow_doTask_completes:
  "\<exists>s'. flow_doTask E c s ts = (Normal s', [])"
proof (induction ts arbitrary: s)
  case Nil
  then show ?case by (simp add: flow_doTask_def)
next
  case (Cons t ts)
  then show ?case using flow_handle_Normal [of E c s t] by (auto simp: flow_doTask_def)
qed

text \<open>
  A number in the range of a setting, printed in decimal, is what the setting
  holds after the update and what is published; any other update of the setting changes
  nothing.
\<close>

theorem checked_uint32_exact:
  assumes "lo \<le> hi" and "hi < 2 ^ 31"
  shows "(n < 2 ^ 31 \<longrightarrow> unat (checked_uint32 (of_nat lo) (of_nat hi) (nat_digits n) old) =
      (if lo \<le> n \<and> n \<le> hi then n else unat old)) \<and>
    (\<forall>e. stoi v = Inl e \<longrightarrow> checked_uint32 (of_nat lo) (of_nat hi) v old = old)"
proof -
  have u: "unat (of_nat k :: 32 word) = k" if "k < 2 ^ 31" for k
    using that by (simp add: unat_of_nat take_bit_nat_eq_self)
  have "lo < 2 ^ 31" using assms by simp
  then show ?thesis
    using assms(2) by (auto simp: checked_uint32_def stoi_nat_digits Let_def word_le_nat_alt u)
qed

theorem checked_uint32_exact_witness:
  "unat (checked_uint32 1000 10000000 ''5000'' 1000000) = 5000 \<and>
   unat (checked_uint32 1000 10000000 ''999'' 1000000) = 1000000"
proof -
  have "nat_digits 5000 = ''5000''" "nat_digits 999 = ''999''" by (simp_all add: text_eval)
  then show ?thesis
    using checked_uint32_exact [of 1000 10000000 5000 1000000] checked_uint32_exact [of 1000 10000000 999 1000000]
    by simp
qed

text \<open>
  The clean-up removes exactly the expired flows, from the table and from the
  statistics, whatever the iteration order of the hash map: every other entry is unchanged.
\<close>

theorem cleanup_exact:
  "um_find (m_active_flows (cleanupExpiredFlows E now s)) fid =
     (case um_find (m_active_flows s) fid of
        None \<Rightarrow> None
      | Some fl \<Rightarrow> if uint (m_flow_timeout_sec s) < now - fl_last_activity fl then None else Some fl) \<and>
   um_find (m_flow_stats (cleanupExpiredFlows E now s)) fid =
     (case um_find (m_active_flows s) fid of
        None \<Rightarrow> um_find (m_flow_stats s) fid
      | Some fl \<Rightarrow> if uint (m_flow_timeout_sec s) < now - fl_last_activity fl then None
                    else um_find (m_flow_stats s) fid)"
  by (simp add: cleanup_find flow_expired_def split: option.split)

text \<open>
  A packet keeps its flow alive: a flow that received a packet at time \<open>t\<close> (and
  was known, or found room in the table) survives a clean-up exactly until the configured
  timeout after \<open>t\<close>.
\<close>

theorem packet_keeps_flow:
  assumes "parsePacketFlowId packet len = Inr fid" and "src_ip fid \<noteq> 0" and "dst_ip fid \<noteq> 0"
    and "um_find (m_active_flows s) fid \<noteq> None \<or> length (m_active_flows s) < unat (m_max_flows s)"
    and "processIncomingPacket now t packet len s = Normal s'"
  shows "um_find (m_active_flows (cleanupExpiredFlows E later s')) fid \<noteq> None \<longleftrightarrow>
    later \<le> t + uint (m_flow_timeout_sec s)"
  using packet_activity [OF assms(1-4), of now t] assms(5)
  by (auto simp: cleanup_find flow_expired_def)

theorem packet_keeps_flow_witness:
  "\<exists>s'. processIncomingPacket 5 5 (udp_packet flow_ex_pre flow_ex_id [] [0, 0, 0, 0]) 28
      (UEFlowManager :: (32, 64, 32) flow_state) = Normal s' \<and>
    um_find (m_active_flows (cleanupExpiredFlows flow_ex_env 305 s')) flow_ex_id \<noteq> None \<and>
    um_find (m_active_flows (cleanupExpiredFlows flow_ex_env 306 s')) flow_ex_id = None"
proof -
  have p: "parsePacketFlowId (udp_packet flow_ex_pre flow_ex_id [] [0, 0, 0, 0]) 28 = Inr flow_ex_id"
    by code_simp
  have nz: "src_ip flow_ex_id \<noteq> 0" "dst_ip flow_ex_id \<noteq> 0"
    by (simp_all add: flow_ex_id_def)
  have room: "um_find (m_active_flows (UEFlowManager :: (32, 64, 32) flow_state)) flow_ex_id \<noteq> None \<or>
      length (m_active_flows (UEFlowManager :: (32, 64, 32) flow_state))
        < unat (m_max_flows (UEFlowManager :: (32, 64, 32) flow_state))"
    by (simp add: UEFlowManager_def)
  obtain s' where s': "processIncomingPacket 5 5 (udp_packet flow_ex_pre flow_ex_id [] [0, 0, 0, 0]) 28
      (UEFlowManager :: (32, 64, 32) flow_state) = Normal s'"
    using packet_activity [OF p nz room] by blast
  then show ?thesis
    using packet_keeps_flow [OF p nz room s', of flow_ex_env 305]
      packet_keeps_flow [OF p nz room s', of flow_ex_env 306]
    by (simp add: UEFlowManager_def)
qed

text \<open>
  After a statistics pass, the state database mirrors the statistics of the
  IPv4 flows exactly: under the key of a flow stand its current counters, and there is
  nothing under the key of a flow the manager does not have.
\<close>

theorem flow_statistics_mirror:
  assumes "flow_reachable E s" and "\<forall>g. um_find (m_flow_stats s) g \<noteq> None \<longrightarrow> ip_version g = 4"
    and "ip_version fid = 4"
  shows "\<exists>s'. updateFlowStatistics E s = Normal s' \<and> m_flow_stats s' = m_flow_stats s \<and>
    published (flow_io s') STATE_DB (stats_key E fid) =
      map_option flow_stats_fvs (um_find (m_flow_stats s) fid)"
  using statistics_mirror [OF flow_reachable_flow_inv [OF assms(1)] assms(2,3)] .

theorem flow_statistics_mirror_witness:
  "\<exists>s'. updateFlowStatistics flow_ex_env flow_ex = Normal s' \<and> m_flow_stats s' = m_flow_stats flow_ex \<and>
    published (flow_io s') STATE_DB (stats_key flow_ex_env flow_ex_id) =
      map_option flow_stats_fvs (um_find (m_flow_stats flow_ex) flow_ex_id)"
  by (rule flow_statistics_mirror [OF flow_ex_reachable]) (simp_all add: flow_ex_flows um_find_def flow_ex_id_def)

text \<open>
  Property C12: for positive samples below \<open>2^29\<close> microseconds, the reported minimum and
  maximum of a flow are those of its samples, the current value is the last one, and the
  moving average stays between the two; nothing wraps at 32 bits or more.
\<close>

theorem rtt_statistics_bounds:
  fixes st :: "('c::len, 'r::len) UEFlowStats"
  assumes "32 \<le> LENGTH('r)" and "rs \<noteq> []" and "\<forall>r \<in> set rs. 0 < unat r \<and> unat r < 2 ^ 29"
    and "st = rtt_updates rs zero_flow_stats"
  shows "unat (min_rtt_us st) = Min (unat ` set rs) \<and> unat (max_rtt_us st) = Max (unat ` set rs) \<and>
    current_rtt_us st = ucast (last rs) \<and>
    Min (unat ` set rs) \<le> unat (avg_rtt_us st) \<and> unat (avg_rtt_us st) \<le> Max (unat ` set rs)"
proof -
  obtain r rs' where rs: "rs = r # rs'" using assms(2) by (cases rs) auto
  have "rtt_ok (unat r) (unat r) (rtt_update r (zero_flow_stats :: ('c, 'r) UEFlowStats))"
    using assms(3) rs by (intro rtt_first [OF assms(1)]) auto
  then have "rtt_ok (Min (unat ` set rs)) (Max (unat ` set rs)) st"
    using rtt_updates_ok [OF assms(1), of "unat r" "unat r" _ rs'] assms(3,4) rs
    by (simp add: rtt_updates_def)
  then show ?thesis
    using assms(4) rtt_updates_current [OF assms(2)] by (simp add: rtt_ok_def)
qed

theorem rtt_statistics_bounds_witness:
  "unat (min_rtt_us (rtt_updates [80, 40, 400] (zero_flow_stats :: (64, 32) UEFlowStats))) = 40"
  using rtt_statistics_bounds [of "[80, 40, 400]", OF _ _ _ refl, where 'r = 32 and 'c = 64] by simp

text \<open>
  A zero sample is lost: the minimum takes it for "not set yet", and the next
  sample replaces it.
\<close>

theorem rtt_zero_forgotten:
  "min_rtt_us (rtt_update r (rtt_update 0 st)) = ucast r"
  by (simp add: rtt_update_def Let_def word_gt_0)

text \<open>
  Spraying over \<open>n\<close> paths gives every path the weight \<open>100 div n\<close>: together
  \<open>100 - 100 mod n\<close>, so the weights add up to 100 only for divisors of 100, and from 101
  paths on no path has any weight. Zero paths divide by zero.
\<close>

theorem spraying_weights:
  assumes "um_find (m_active_flows s) fid \<noteq> None" and "n \<noteq> 0"
  shows "enablePacketSpraying fid 0 s = Undefined Division_by_zero \<and>
    (\<exists>s'. enablePacketSpraying fid n s = Normal s' \<and>
       length (flow_weights s' fid) = unat n \<and>
       (\<forall>w \<in> set (flow_weights s' fid). unat w = 100 div unat n) \<and>
       sum_list (map unat (flow_weights s' fid)) = 100 - 100 mod unat n)"
proof -
  obtain fl where "um_find (m_active_flows s) fid = Some fl" using assms(1) by blast
  moreover have "unat n * (100 div unat n) = 100 - 100 mod unat n"
    by (simp add: minus_mod_eq_mult_div)
  ultimately show ?thesis
    using assms(2)
    by (simp add: enablePacketSpraying_def flow_weights_def um_find_assign equal_weight sum_list_replicate)
qed

theorem spraying_weights_witness:
  "\<exists>s'. enablePacketSpraying flow_ex_id 3 flow_ex = Normal s' \<and>
     sum_list (map unat (flow_weights s' flow_ex_id)) = 99"
  using spraying_weights [of flow_ex flow_ex_id 3] by (auto simp: flow_ex_flows um_find_def)

text \<open>
  Property C18: however often the daemon's loop calls the periodic task, it does its jobs when
  they are due and at no other call. A run of calls at the times \<open>ts\<close> leaves the flow table,
  the statistics and everything published as if exactly the statistics passes and clean-ups
  due by the two timers had been done and nothing else; and on a clock that does not run
  backwards two passes are at least a second apart and two clean-ups at least a minute, and
  at every call from the first period on, the last pass is less than a second and the last
  clean-up less than a minute ago; \<open>d\<close> is what passes between the two readings of the clock.
\<close>

theorem flow_timers_regular:
  assumes "sorted (flow_last_stats_update s # ts)" and "sorted (flow_last_cleanup s # ts)" and "t \<in> set ts"
  defines "passes \<equiv> due_times 1 (flow_last_stats_update s) ts" and "cleanups \<equiv> due_times 60 (flow_last_cleanup s) ts"
  shows "(\<exists>s' s''. flow_ticks E d ts s = Normal s' \<and>
      flow_jobs E d ts (due 1 (flow_last_stats_update s) ts) (due 60 (flow_last_cleanup s) ts) s = Normal s'' \<and>
      m_active_flows s' = m_active_flows s'' \<and> m_flow_stats s' = m_flow_stats s'' \<and> flow_io s' = flow_io s'') \<and>
    sorted_wrt (\<lambda>a b. a + 1 \<le> b) passes \<and> sorted_wrt (\<lambda>a b. a + 60 \<le> b) cleanups \<and>
    (flow_last_stats_update s + 1 \<le> t \<longrightarrow> (\<exists>x \<in> set passes. t - 1 < x \<and> x \<le> t)) \<and>
    (flow_last_cleanup s + 60 \<le> t \<longrightarrow> (\<exists>x \<in> set cleanups. t - 60 < x \<and> x \<le> t))"
proof (intro conjI)
  have "same_flows s s" by (simp add: same_flows_def)
  from ticks_jobs [OF this, of E d ts] show "\<exists>s' s''. flow_ticks E d ts s = Normal s' \<and>
      flow_jobs E d ts (due 1 (flow_last_stats_update s) ts) (due 60 (flow_last_cleanup s) ts) s = Normal s'' \<and>
      m_active_flows s' = m_active_flows s'' \<and> m_flow_stats s' = m_flow_stats s'' \<and> flow_io s' = flow_io s''"
    unfolding same_flows_def by blast
qed (use flow_stats_timer.fire_times_spaced [OF assms(1) below_horizon, unfolded fire_times_due]
    flow_cleanup_timer.fire_times_spaced [OF assms(2) below_horizon, unfolded fire_times_due]
    flow_stats_timer.fire_times_fresh [OF assms(1) below_horizon assms(3), unfolded fire_times_due]
    flow_cleanup_timer.fire_times_fresh [OF assms(2) below_horizon assms(3), unfolded fire_times_due]
    in \<open>unfold passes_def cleanups_def, blast+\<close>)

text \<open>Four calls: three statistics passes, and clean-ups at the first and the last.\<close>

theorem flow_timers_regular_witness:
  "(\<exists>s' s''. flow_ticks flow_ex_env (\<lambda>_. 0) [60, 60, 61, 125] (flow_ex\<lparr>flow_last_cleanup := 0\<rparr>) = Normal s' \<and>
      flow_jobs flow_ex_env (\<lambda>_. 0) [60, 60, 61, 125] [True, False, True, True] [True, False, False, True]
        (flow_ex\<lparr>flow_last_cleanup := 0\<rparr>) = Normal s'' \<and> flow_io s' = flow_io s'') \<and>
   due_times 60 0 [60, 60, 61, 125] = [60, 125]"
proof -
  have stamps: "flow_last_stats_update flow_ex = 0"
    by (simp add: flow_ex_def createFlow_def UEFlowManager_def)
  show ?thesis
    using flow_timers_regular [of "flow_ex\<lparr>flow_last_cleanup := 0\<rparr>" "[60, 60, 61, 125]" 125 flow_ex_env "\<lambda>_. 0"]
    by (auto simp: stamps due_times_simps)
qed

end
