(* ===== verification/Congestion_Manager.thy ===== *)
theory Congestion_Manager
  imports Transport_Types
begin

text \<open>
  \<open>sonic-ue-transportd/src/ue_congestion_manager.cpp\<close>: congestion detection per interface,
  the bounded event queue, the path weights and the statistics. The header is not in the
  repository: table names, default-constructed structures, and the two members the code
  calls without defining them (\<open>processInterfaceConfig\<close>, \<open>updateCongestionState\<close>) are fields
  of the environment; counters have a width parameter.
\<close>

section \<open>Severity\<close>

datatype CongestionState = NORMAL | WARNING | CONGESTED | CRITICAL

fun severity :: "CongestionState \<Rightarrow> nat" where
  "severity NORMAL = 0"
| "severity WARNING = 1"
| "severity CONGESTED = 2"
| "severity CRITICAL = 3"

lemma severity_inject: "severity a = severity b \<Longrightarrow> a = b"
  by (cases a; cases b) simp_all

text \<open>Congestion states in the order of their severity.\<close>

instantiation CongestionState :: linorder
begin

definition less_eq_CongestionState :: "CongestionState \<Rightarrow> CongestionState \<Rightarrow> bool" where
  "less_eq_CongestionState a b \<longleftrightarrow> severity a \<le> severity b"

definition less_CongestionState :: "CongestionState \<Rightarrow> CongestionState \<Rightarrow> bool" where
  "less_CongestionState a b \<longleftrightarrow> severity a < severity b"

instance
  by standard (auto simp: less_eq_CongestionState_def less_CongestionState_def severity_inject)

end

section \<open>State\<close>

record CongestionInfo =
  ci_state :: CongestionState
  ci_queue_depth :: "32 word"
  ci_threshold_warning :: "32 word"
  ci_threshold_congested :: "32 word"
  ci_threshold_critical :: "32 word"
  ci_timestamp :: "64 word"

record PathInfo =
  pa_weight :: "32 word"
  pa_available :: bool
  pa_congestion_state :: CongestionState

record (overloaded) 'c CongestionStats =
  congestion_events :: "'c::len word"
  ecn_marked_packets :: "'c word"
  dropped_packets :: "'c word"
  path_rebalance_events :: "'c word"
  avg_queue_depth :: "'c word"
  max_queue_depth :: "'c word"

record (overloaded) 'c congestion_state =
  m_algorithm :: UECongestionAlgorithm
  m_ecn_threshold_percent :: "32 word"
  m_drop_threshold_percent :: "32 word"
  m_real_time_feedback :: bool
  m_path_rebalancing_enabled :: bool
  m_adaptive_spraying_enabled :: bool
  m_congestion_detection_interval_ms :: "32 word"
  m_last_congestion_check :: "64 word"
  m_last_path_rebalance :: "64 word"
  m_last_stats_update :: "64 word"
  m_interface_congestion :: "(string, CongestionInfo) umap"
  m_congestion_stats :: "(string, 'c::len CongestionStats) umap"
  m_path_info :: "(string, PathInfo) umap"
  m_congestion_events :: "CongestionInfo list"
  congestion_io :: "db_cmd list"

definition UECongestionManager :: "('c::len) congestion_state" where
  "UECongestionManager =
     \<lparr>m_algorithm = UE_CUBIC_PLUS, m_ecn_threshold_percent = 80, m_drop_threshold_percent = 95,
      m_real_time_feedback = True, m_path_rebalancing_enabled = True,
      m_adaptive_spraying_enabled = True, m_congestion_detection_interval_ms = 100,
      m_last_congestion_check = 0, m_last_path_rebalance = 0, m_last_stats_update = 0,
      m_interface_congestion = [], m_congestion_stats = [], m_path_info = [],
      m_congestion_events = [], congestion_io = []\<rparr>"

record (overloaded) 'c congestion_env =
  APP_UE_CONGESTION_STATE_TABLE_NAME :: string
  STATE_UE_CONGESTION_STATS_TABLE_NAME :: string
  default_congestion_info :: CongestionInfo
  default_congestion_stats :: "'c::len CongestionStats"
  congestion_processInterfaceConfig ::
    "string \<Rightarrow> operation \<Rightarrow> fvs \<Rightarrow> 'c congestion_state \<Rightarrow> 'c congestion_state outcome"
  updateCongestionState :: "'c congestion_state \<Rightarrow> 'c congestion_state outcome"

definition congestion_emit :: "db_cmd \<Rightarrow> ('c::len) congestion_state \<Rightarrow> 'c congestion_state" where
  "congestion_emit c s = s\<lparr>congestion_io := congestion_io s @ [c]\<rparr>"

section \<open>Configuration\<close>

text \<open>
  The loop over the fields assigns the members directly, and \<open>std::stoi\<close> is not guarded: an
  exception leaves what was assigned before it.
\<close>

fun congestion_fields :: "fvs \<Rightarrow> ('c::len) congestion_state \<Rightarrow> 'c congestion_state outcome" where
  "congestion_fields [] s = Normal s"
| "congestion_fields ((field, value) # fs) s =
     (if field = ''algorithm'' then
        congestion_fields fs (s\<lparr>m_algorithm := read_algorithm value (m_algorithm s)\<rparr>)
      else if field = ''ecn_threshold_percent'' then
        (case stoi value of
           Inl e \<Rightarrow> Throws e s
         | Inr v \<Rightarrow> congestion_fields fs (s\<lparr>m_ecn_threshold_percent := word_of_int v\<rparr>))
      else if field = ''drop_threshold_percent'' then
        (case stoi value of
           Inl e \<Rightarrow> Throws e s
         | Inr v \<Rightarrow> congestion_fields fs (s\<lparr>m_drop_threshold_percent := word_of_int v\<rparr>))
      else if field = ''real_time_feedback'' then
        congestion_fields fs (s\<lparr>m_real_time_feedback := (value = ''true'')\<rparr>)
      else if field = ''path_rebalancing'' then
        congestion_fields fs (s\<lparr>m_path_rebalancing_enabled := (value = ''true'')\<rparr>)
      else if field = ''adaptive_spraying'' then
        congestion_fields fs (s\<lparr>m_adaptive_spraying_enabled := (value = ''true'')\<rparr>)
      else congestion_fields fs s)"

definition processCongestionConfig ::
  "string \<Rightarrow> operation \<Rightarrow> fvs \<Rightarrow> ('c::len) congestion_state \<Rightarrow> 'c congestion_state outcome" where
  "processCongestionConfig key op vals s =
     (if key \<noteq> ''global'' then Normal s
      else if op = SET_COMMAND then congestion_fields vals s
      else Normal s)"

definition congestion_handle ::
  "('c::len) congestion_env \<Rightarrow> consumer \<Rightarrow> 'c congestion_state \<Rightarrow> task \<Rightarrow> 'c congestion_state outcome" where
  "congestion_handle E c s t =
     (case c of
        Config_consumer \<Rightarrow> processCongestionConfig (kfvKey t) (kfvOp t) (kfvFieldsValues t) s
      | Interface_consumer \<Rightarrow>
          congestion_processInterfaceConfig E (kfvKey t) (kfvOp t) (kfvFieldsValues t) s
      | _ \<Rightarrow> Normal s)"

definition congestion_doTask ::
  "('c::len) congestion_env \<Rightarrow> consumer \<Rightarrow> 'c congestion_state \<Rightarrow> task list \<Rightarrow>
   'c congestion_state outcome \<times> task list" where
  "congestion_doTask E c s ts = drain (congestion_handle E c) s ts"

section \<open>Paths\<close>

definition path_update :: "PathInfo \<Rightarrow> PathInfo" where
  "path_update path =
     (case pa_congestion_state path of
        NORMAL \<Rightarrow> path\<lparr>pa_weight := 100, pa_available := True\<rparr>
      | WARNING \<Rightarrow> path\<lparr>pa_weight := 75, pa_available := True\<rparr>
      | CONGESTED \<Rightarrow> path\<lparr>pa_weight := 25, pa_available := True\<rparr>
      | CRITICAL \<Rightarrow> path\<lparr>pa_weight := 0, pa_available := False\<rparr>)"

definition path_step :: "string \<Rightarrow> ('c::len) congestion_state \<Rightarrow> 'c congestion_state" where
  "path_step i s =
     (case um_find (m_path_info s) i of
        None \<Rightarrow> s
      | Some path \<Rightarrow> s\<lparr>m_path_info := um_assign i (path_update path) (m_path_info s)\<rparr>)"

definition updatePathWeights :: "('c::len) congestion_state \<Rightarrow> 'c congestion_state outcome" where
  "updatePathWeights s = range_for m_path_info (\<lambda>i s. Normal (path_step i s)) s"

definition rebalancePaths :: "('c::len) congestion_state \<Rightarrow> 'c congestion_state outcome" where
  "rebalancePaths s = updatePathWeights s"

section \<open>Events\<close>

definition ecn_key :: "('c::len) congestion_env \<Rightarrow> string \<Rightarrow> string" where
  "ecn_key E i = APP_UE_CONGESTION_STATE_TABLE_NAME E @ CHR '':'' # i"

lemma ecn_key_inj: "inj (ecn_key E)"
  by (simp add: inj_def ecn_key_def)

definition ecn_fvs :: "32 word \<Rightarrow> fvs" where
  "ecn_fvs threshold = [(''ecn_enable'', ''true''), (''ecn_threshold'', to_string threshold)]"

definition enableECNMarking ::
  "('c::len) congestion_env \<Rightarrow> string \<Rightarrow> 32 word \<Rightarrow> 'c congestion_state \<Rightarrow> 'c congestion_state" where
  "enableECNMarking E i threshold s =
     congestion_emit (Db_set APPL_DB (ecn_key E i) (ecn_fvs threshold)) s"

text \<open>\<open>while (m_congestion_events.size() > 100) m_congestion_events.pop();\<close>.\<close>

fun pop_to_100 :: "'e list \<Rightarrow> 'e list" where
  "pop_to_100 q = (if 100 < length q then pop_to_100 (tl q) else q)"

declare pop_to_100.simps [simp del]

definition bump_stats ::
  "('c::len) congestion_env \<Rightarrow> string \<Rightarrow> ('c CongestionStats \<Rightarrow> 'c CongestionStats) \<Rightarrow>
   'c congestion_state \<Rightarrow> 'c congestion_state" where
  "bump_stats E i f s =
     s\<lparr>m_congestion_stats := um_modify (default_congestion_stats E) i f (m_congestion_stats s)\<rparr>"

definition handleCongestionEvent ::
  "('c::len) congestion_env \<Rightarrow> string \<Rightarrow> CongestionState \<Rightarrow> 'c congestion_state \<Rightarrow> 'c congestion_state outcome" where
  "handleCongestionEvent E i state s =
     out_bind
       (let s1 = bump_stats E i (\<lambda>st. st\<lparr>congestion_events := congestion_events st + 1\<rparr>) s
        in case state of
             WARNING \<Rightarrow> Normal (enableECNMarking E i (m_ecn_threshold_percent s1) s1)
           | CONGESTED \<Rightarrow>
               (let s2 = bump_stats E i (\<lambda>st. st\<lparr>ecn_marked_packets := ecn_marked_packets st + 100\<rparr>) s1
                in if m_path_rebalancing_enabled s2 then
                     out_bind (rebalancePaths s2) (\<lambda>s3.
                       Normal (bump_stats E i (\<lambda>st. st\<lparr>path_rebalance_events := path_rebalance_events st + 1\<rparr>) s3))
                   else Normal s2)
           | CRITICAL \<Rightarrow>
               Normal (bump_stats E i (\<lambda>st. st\<lparr>dropped_packets := dropped_packets st + 10\<rparr>) s1)
           | NORMAL \<Rightarrow> Normal s1)
       (\<lambda>s4. let event_info = um_at (default_congestion_info E) (m_interface_congestion s4) i;
                 s5 = s4\<lparr>m_interface_congestion := um_modify (default_congestion_info E) i id (m_interface_congestion s4)\<rparr>
             in Normal (s5\<lparr>m_congestion_events := pop_to_100 (m_congestion_events s5 @ [event_info])\<rparr>))"

section \<open>Detection\<close>

definition classify :: "CongestionInfo \<Rightarrow> 32 word \<Rightarrow> CongestionState" where
  "classify info depth =
     (if ci_threshold_critical info \<le> depth then CRITICAL
      else if ci_threshold_congested info \<le> depth then CONGESTED
      else if ci_threshold_warning info \<le> depth then WARNING
      else NORMAL)"

text \<open>A reading of an interface: the result of \<open>rand()\<close> and the clock in milliseconds.\<close>

definition detected :: "nat \<times> 64 word \<Rightarrow> CongestionInfo \<Rightarrow> CongestionInfo" where
  "detected r info =
     (let depth = of_nat (fst r mod 100)
      in info\<lparr>ci_queue_depth := depth, ci_timestamp := snd r, ci_state := classify info depth\<rparr>)"

definition detect_interface ::
  "('c::len) congestion_env \<Rightarrow> (string \<Rightarrow> nat \<times> 64 word) \<Rightarrow> string \<Rightarrow> 'c congestion_state \<Rightarrow> 'c congestion_state outcome" where
  "detect_interface E reading i s =
     (case um_find (m_interface_congestion s) i of
        None \<Rightarrow> Normal s
      | Some info \<Rightarrow>
          (let info' = detected (reading i) info;
               s1 = s\<lparr>m_interface_congestion := um_assign i info' (m_interface_congestion s)\<rparr>
           in if ci_state info' \<noteq> ci_state info then handleCongestionEvent E i (ci_state info') s1
              else Normal s1))"

definition detectCongestion ::
  "('c::len) congestion_env \<Rightarrow> (string \<Rightarrow> nat \<times> 64 word) \<Rightarrow> 'c congestion_state \<Rightarrow> 'c congestion_state outcome" where
  "detectCongestion E reading s = range_for m_interface_congestion (detect_interface E reading) s"

section \<open>Statistics and timers\<close>

definition congestion_stats_key :: "('c::len) congestion_env \<Rightarrow> string \<Rightarrow> string" where
  "congestion_stats_key E i = STATE_UE_CONGESTION_STATS_TABLE_NAME E @ CHR '':'' # i"

definition congestion_stats_fvs :: "('c::len) CongestionStats \<Rightarrow> fvs" where
  "congestion_stats_fvs st =
     [(''congestion_events'', to_string (congestion_events st)),
      (''ecn_marked_packets'', to_string (ecn_marked_packets st)),
      (''dropped_packets'', to_string (dropped_packets st)),
      (''path_rebalance_events'', to_string (path_rebalance_events st)),
      (''avg_queue_depth'', to_string (avg_queue_depth st)),
      (''max_queue_depth'', to_string (max_queue_depth st))]"

definition publish_congestion ::
  "('c::len) congestion_env \<Rightarrow> string \<Rightarrow> 'c congestion_state \<Rightarrow> 'c congestion_state" where
  "publish_congestion E i s =
     congestion_emit (Db_set STATE_DB (congestion_stats_key E i)
       (congestion_stats_fvs (um_at (default_congestion_stats E) (m_congestion_stats s) i))) s"

definition updateCongestionStatistics ::
  "('c::len) congestion_env \<Rightarrow> 'c congestion_state \<Rightarrow> 'c congestion_state outcome" where
  "updateCongestionStatistics E s = range_for m_congestion_stats (\<lambda>i s. Normal (publish_congestion E i s)) s"

text \<open>
  The three blocks of \<open>doPeriodicTask\<close>; \<open>now_ms\<close> is the clock read at its start, and
  differences are taken modulo \<open>2^64\<close>.
\<close>

definition detection_block ::
  "('c::len) congestion_env \<Rightarrow> (string \<Rightarrow> nat \<times> 64 word) \<Rightarrow> 64 word \<Rightarrow> 'c congestion_state \<Rightarrow> 'c congestion_state outcome" where
  "detection_block E reading now_ms s =
     (if ucast (m_congestion_detection_interval_ms s) \<le> now_ms - m_last_congestion_check s
      then out_bind (detectCongestion E reading s) (\<lambda>s1. out_bind (updateCongestionState E s1) (\<lambda>s2.
             Normal (s2\<lparr>m_last_congestion_check := now_ms\<rparr>)))
      else Normal s)"

definition rebalancing_block :: "64 word \<Rightarrow> ('c::len) congestion_state \<Rightarrow> 'c congestion_state outcome" where
  "rebalancing_block now_ms s =
     (if m_path_rebalancing_enabled s \<and> 1000 \<le> now_ms - m_last_path_rebalance s
      then out_bind (rebalancePaths s) (\<lambda>s1. Normal (s1\<lparr>m_last_path_rebalance := now_ms\<rparr>))
      else Normal s)"

definition statistics_block ::
  "('c::len) congestion_env \<Rightarrow> 64 word \<Rightarrow> 'c congestion_state \<Rightarrow> 'c congestion_state outcome" where
  "statistics_block E now_ms s =
     (if 5000 \<le> now_ms - m_last_stats_update s
      then out_bind (updateCongestionStatistics E s) (\<lambda>s1. Normal (s1\<lparr>m_last_stats_update := now_ms\<rparr>))
      else Normal s)"

definition congestion_doPeriodicTask ::
  "('c::len) congestion_env \<Rightarrow> (string \<Rightarrow> nat \<times> 64 word) \<Rightarrow> 64 word \<Rightarrow> 'c congestion_state \<Rightarrow> 'c congestion_state outcome" where
  "congestion_doPeriodicTask E reading now_ms s =
     out_bind (detection_block E reading now_ms s) (\<lambda>s1.
     out_bind (rebalancing_block now_ms s1) (\<lambda>s2.
     statistics_block E now_ms s2))"

section \<open>Frames\<close>

lemma congestion_emit_frame [simp]:
  "m_interface_congestion (congestion_emit c s) = m_interface_congestion s"
  "m_congestion_stats (congestion_emit c s) = m_congestion_stats s"
  "m_path_info (congestion_emit c s) = m_path_info s"
  "m_congestion_events (congestion_emit c s) = m_congestion_events s"
  "m_path_rebalancing_enabled (congestion_emit c s) = m_path_rebalancing_enabled s"
  "m_ecn_threshold_percent (congestion_emit c s) = m_ecn_threshold_percent s"
  "m_last_congestion_check (congestion_emit c s) = m_last_congestion_check s"
  "m_last_path_rebalance (congestion_emit c s) = m_last_path_rebalance s"
  "m_last_stats_update (congestion_emit c s) = m_last_stats_update s"
  "congestion_io (congestion_emit c s) = congestion_io s @ [c]"
  by (simp_all add: congestion_emit_def)

lemma bump_stats_frame [simp]:
  "m_interface_congestion (bump_stats E i f s) = m_interface_congestion s"
  "m_congestion_stats (bump_stats E i f s) = um_modify (default_congestion_stats E) i f (m_congestion_stats s)"
  "m_path_info (bump_stats E i f s) = m_path_info s"
  "m_congestion_events (bump_stats E i f s) = m_congestion_events s"
  "m_path_rebalancing_enabled (bump_stats E i f s) = m_path_rebalancing_enabled s"
  "m_ecn_threshold_percent (bump_stats E i f s) = m_ecn_threshold_percent s"
  "m_last_congestion_check (bump_stats E i f s) = m_last_congestion_check s"
  "m_last_path_rebalance (bump_stats E i f s) = m_last_path_rebalance s"
  "m_last_stats_update (bump_stats E i f s) = m_last_stats_update s"
  "congestion_io (bump_stats E i f s) = congestion_io s"
  by (simp_all add: bump_stats_def)

lemma um_assign_same: "um_find m k = Some v \<Longrightarrow> um_assign k v m = m"
  by (induction m) (auto simp: um_find_def um_assign_def split: if_splits)

lemma um_modify_id: "um_find m k \<noteq> None \<Longrightarrow> um_modify d k id m = m"
  by (auto simp: um_modify_def um_at_def um_assign_same)

lemma um_keys_assign_old: "um_find m k \<noteq> None \<Longrightarrow> um_keys (um_assign k v m) = um_keys m"
  by (simp add: um_keys_assign um_keys_find)

section \<open>Path weights\<close>

lemma path_step_frame [simp]:
  "m_interface_congestion (path_step i s) = m_interface_congestion s"
  "m_congestion_stats (path_step i s) = m_congestion_stats s"
  "m_congestion_events (path_step i s) = m_congestion_events s"
  "m_path_rebalancing_enabled (path_step i s) = m_path_rebalancing_enabled s"
  "m_ecn_threshold_percent (path_step i s) = m_ecn_threshold_percent s"
  "m_last_congestion_check (path_step i s) = m_last_congestion_check s"
  "m_last_path_rebalance (path_step i s) = m_last_path_rebalance s"
  "m_last_stats_update (path_step i s) = m_last_stats_update s"
  "congestion_io (path_step i s) = congestion_io s"
  by (simp_all add: path_step_def split: option.split)

lemma path_step_keys [simp]: "um_keys (m_path_info (path_step i s)) = um_keys (m_path_info s)"
  by (simp add: path_step_def um_keys_assign_old split: option.split)

interpretation path_loop: loop_body m_path_info "\<lambda>i s. Normal (path_step i s)" path_step
  by unfold_locales simp_all

definition reweighted :: "('c::len) congestion_state \<Rightarrow> 'c congestion_state" where
  "reweighted s = foldl (\<lambda>s i. path_step i s) s (um_keys (m_path_info s))"

lemma updatePathWeights_Normal: "updatePathWeights s = Normal (reweighted s)"
  by (simp add: updatePathWeights_def reweighted_def path_loop.loop_fold)

lemma rebalancePaths_Normal: "rebalancePaths s = Normal (reweighted s)"
  by (simp add: rebalancePaths_def updatePathWeights_Normal)

lemma path_fold_frame:
  "m_interface_congestion (foldl (\<lambda>s i. path_step i s) s ks) = m_interface_congestion s"
  "m_congestion_stats (foldl (\<lambda>s i. path_step i s) s ks) = m_congestion_stats s"
  "m_congestion_events (foldl (\<lambda>s i. path_step i s) s ks) = m_congestion_events s"
  "m_path_rebalancing_enabled (foldl (\<lambda>s i. path_step i s) s ks) = m_path_rebalancing_enabled s"
  "m_ecn_threshold_percent (foldl (\<lambda>s i. path_step i s) s ks) = m_ecn_threshold_percent s"
  "m_last_congestion_check (foldl (\<lambda>s i. path_step i s) s ks) = m_last_congestion_check s"
  "m_last_path_rebalance (foldl (\<lambda>s i. path_step i s) s ks) = m_last_path_rebalance s"
  "m_last_stats_update (foldl (\<lambda>s i. path_step i s) s ks) = m_last_stats_update s"
  "congestion_io (foldl (\<lambda>s i. path_step i s) s ks) = congestion_io s"
  by (induction ks arbitrary: s) simp_all

lemma reweighted_frame [simp]:
  "m_interface_congestion (reweighted s) = m_interface_congestion s"
  "m_congestion_stats (reweighted s) = m_congestion_stats s"
  "m_congestion_events (reweighted s) = m_congestion_events s"
  "m_path_rebalancing_enabled (reweighted s) = m_path_rebalancing_enabled s"
  "m_ecn_threshold_percent (reweighted s) = m_ecn_threshold_percent s"
  "m_last_congestion_check (reweighted s) = m_last_congestion_check s"
  "m_last_path_rebalance (reweighted s) = m_last_path_rebalance s"
  "m_last_stats_update (reweighted s) = m_last_stats_update s"
  "congestion_io (reweighted s) = congestion_io s"
  by (simp_all add: reweighted_def path_fold_frame)

lemma path_update_idem [simp]: "path_update (path_update p) = path_update p"
  by (cases "pa_congestion_state p") (simp_all add: path_update_def)

lemma path_fold_find:
  "um_find (m_path_info (foldl (\<lambda>s i. path_step i s) s ks)) i =
     (if i \<in> set ks then map_option path_update (um_find (m_path_info s) i) else um_find (m_path_info s) i)"
proof (induction ks arbitrary: s)
  case Nil
  then show ?case by simp
next
  case (Cons k ks)
  have "um_find (m_path_info (path_step k s)) i =
      (if i = k then map_option path_update (um_find (m_path_info s) i) else um_find (m_path_info s) i)"
    by (auto simp: path_step_def um_find_assign split: option.split)
  with Cons show ?case by (auto simp: option.map_comp comp_def)
qed

lemma reweighted_find: "um_find (m_path_info (reweighted s)) i = map_option path_update (um_find (m_path_info s) i)"
  by (simp add: reweighted_def path_fold_find um_keys_find)

section \<open>The event queue\<close>

lemma pop_to_100_drop: "pop_to_100 q = drop (length q - 100) q"
proof (induction q rule: pop_to_100.induct)
  case (1 q)
  show ?case
  proof (cases "100 < length q")
    case True
    then have "length q - 100 = Suc (length q - 101)" by simp
    with True 1 show ?thesis
      by (subst pop_to_100.simps) (simp add: drop_Suc)
  next
    case False
    then show ?thesis by (subst pop_to_100.simps) simp
  qed
qed

lemma pop_to_100_length: "length (pop_to_100 q) = min 100 (length q)"
  by (simp add: pop_to_100_drop)

lemma pop_to_100_append: "pop_to_100 (pop_to_100 q @ r) = pop_to_100 (q @ r)"
  by (cases "length q \<le> 100") (simp_all add: pop_to_100_drop add.commute)

section \<open>Handling an event\<close>

text \<open>What an event does to the statistics of its interface.\<close>

definition count_event :: "bool \<Rightarrow> CongestionState \<Rightarrow> ('c::len) CongestionStats \<Rightarrow> 'c CongestionStats" where
  "count_event rebalancing state st =
     (let st1 = st\<lparr>congestion_events := congestion_events st + 1\<rparr>
      in case state of
           CONGESTED \<Rightarrow>
             (let st2 = st1\<lparr>ecn_marked_packets := ecn_marked_packets st1 + 100\<rparr>
              in if rebalancing then st2\<lparr>path_rebalance_events := path_rebalance_events st2 + 1\<rparr> else st2)
         | CRITICAL \<Rightarrow> st1\<lparr>dropped_packets := dropped_packets st1 + 10\<rparr>
         | _ \<Rightarrow> st1)"

definition event_effects ::
  "('c::len) congestion_env \<Rightarrow> string \<Rightarrow> CongestionState \<Rightarrow> 'c congestion_state \<Rightarrow> 'c congestion_state" where
  "event_effects E i state s =
     (let s1 = bump_stats E i (count_event (m_path_rebalancing_enabled s) state) s
      in if state = WARNING then enableECNMarking E i (m_ecn_threshold_percent s) s1
         else if state = CONGESTED \<and> m_path_rebalancing_enabled s then reweighted s1
         else s1)"

definition event_step ::
  "('c::len) congestion_env \<Rightarrow> string \<Rightarrow> CongestionState \<Rightarrow> 'c congestion_state \<Rightarrow> 'c congestion_state" where
  "event_step E i state s =
     (event_effects E i state s)\<lparr>m_congestion_events := pop_to_100 (m_congestion_events s @
        [um_at (default_congestion_info E) (m_interface_congestion s) i])\<rparr>"

lemma enableECNMarking_frame [simp]:
  "m_interface_congestion (enableECNMarking E i t s) = m_interface_congestion s"
  "m_congestion_stats (enableECNMarking E i t s) = m_congestion_stats s"
  "m_path_info (enableECNMarking E i t s) = m_path_info s"
  "m_congestion_events (enableECNMarking E i t s) = m_congestion_events s"
  "m_path_rebalancing_enabled (enableECNMarking E i t s) = m_path_rebalancing_enabled s"
  "m_ecn_threshold_percent (enableECNMarking E i t s) = m_ecn_threshold_percent s"
  "m_last_congestion_check (enableECNMarking E i t s) = m_last_congestion_check s"
  "m_last_path_rebalance (enableECNMarking E i t s) = m_last_path_rebalance s"
  "m_last_stats_update (enableECNMarking E i t s) = m_last_stats_update s"
  "congestion_io (enableECNMarking E i t s) = congestion_io s @ [Db_set APPL_DB (ecn_key E i) (ecn_fvs t)]"
  by (simp_all add: enableECNMarking_def)

lemma um_assign_twice: "um_assign k v (um_assign k w m) = um_assign k v m"
  by (simp add: um_assign_def)

lemma um_modify_twice: "um_modify d k f (um_modify d k g m) = um_modify d k (\<lambda>v. f (g v)) m"
  by (simp add: um_modify_def um_at_assign um_assign_twice)

lemma bump_twice: "bump_stats E i f (bump_stats E i g s) = bump_stats E i (\<lambda>st. f (g st)) s"
  by (simp add: bump_stats_def um_modify_twice)

lemma path_step_bump: "path_step k (bump_stats E i f s) = bump_stats E i f (path_step k s)"
  by (simp add: path_step_def bump_stats_def split: option.split)

lemma reweighted_bump: "reweighted (bump_stats E i f s) = bump_stats E i f (reweighted s)"
proof -
  have "foldl (\<lambda>s k. path_step k s) (bump_stats E i f s) ks = bump_stats E i f (foldl (\<lambda>s k. path_step k s) s ks)" for ks
    by (induction ks arbitrary: s) (simp_all add: path_step_bump)
  then show ?thesis by (simp add: reweighted_def)
qed

lemma touch_interface:
  "um_find (m_interface_congestion s) i \<noteq> None \<Longrightarrow>
   s\<lparr>m_interface_congestion := um_modify d i id (m_interface_congestion s)\<rparr> = s"
  by (cases s) (simp add: um_modify_id)

lemma count_event_cases:
  "count_event b NORMAL = (\<lambda>st. st\<lparr>congestion_events := congestion_events st + 1\<rparr>)"
  "count_event b WARNING = (\<lambda>st. st\<lparr>congestion_events := congestion_events st + 1\<rparr>)"
  "count_event b CRITICAL = (\<lambda>st. st\<lparr>congestion_events := congestion_events st + 1,
     dropped_packets := dropped_packets st + 10\<rparr>)"
  "count_event False CONGESTED = (\<lambda>st. st\<lparr>congestion_events := congestion_events st + 1,
     ecn_marked_packets := ecn_marked_packets st + 100\<rparr>)"
  "count_event True CONGESTED = (\<lambda>st. st\<lparr>congestion_events := congestion_events st + 1,
     ecn_marked_packets := ecn_marked_packets st + 100,
     path_rebalance_events := path_rebalance_events st + 1\<rparr>)"
  by (simp_all add: count_event_def fun_eq_iff)

lemma event_effects_frame [simp]:
  "m_interface_congestion (event_effects E i state s) = m_interface_congestion s"
  "m_path_rebalancing_enabled (event_effects E i state s) = m_path_rebalancing_enabled s"
  "m_ecn_threshold_percent (event_effects E i state s) = m_ecn_threshold_percent s"
  "m_last_congestion_check (event_effects E i state s) = m_last_congestion_check s"
  "m_last_path_rebalance (event_effects E i state s) = m_last_path_rebalance s"
  "m_last_stats_update (event_effects E i state s) = m_last_stats_update s"
  "m_congestion_events (event_effects E i state s) = m_congestion_events s"
  "m_congestion_stats (event_effects E i state s) =
     um_modify (default_congestion_stats E) i (count_event (m_path_rebalancing_enabled s) state) (m_congestion_stats s)"
  "congestion_io (event_effects E i state s) = congestion_io s @
     (if state = WARNING then [Db_set APPL_DB (ecn_key E i) (ecn_fvs (m_ecn_threshold_percent s))] else [])"
  by (simp_all add: event_effects_def Let_def)

lemma handleCongestionEvent_Normal:
  assumes "um_find (m_interface_congestion s) i \<noteq> None"
  shows "handleCongestionEvent E i state s = Normal (event_step E i state s)"
proof -
  have body:
    "(let s1 = bump_stats E i (\<lambda>st. st\<lparr>congestion_events := congestion_events st + 1\<rparr>) s
      in case state of
           WARNING \<Rightarrow> Normal (enableECNMarking E i (m_ecn_threshold_percent s1) s1)
         | CONGESTED \<Rightarrow>
             (let s2 = bump_stats E i (\<lambda>st. st\<lparr>ecn_marked_packets := ecn_marked_packets st + 100\<rparr>) s1
              in if m_path_rebalancing_enabled s2 then
                   out_bind (rebalancePaths s2) (\<lambda>s3.
                     Normal (bump_stats E i (\<lambda>st. st\<lparr>path_rebalance_events := path_rebalance_events st + 1\<rparr>) s3))
                 else Normal s2)
         | CRITICAL \<Rightarrow>
             Normal (bump_stats E i (\<lambda>st. st\<lparr>dropped_packets := dropped_packets st + 10\<rparr>) s1)
         | NORMAL \<Rightarrow> Normal s1) = Normal (event_effects E i state s)"
    by (cases state; cases "m_path_rebalancing_enabled s")
      (simp_all add: event_effects_def Let_def count_event_cases rebalancePaths_Normal reweighted_bump bump_twice)
  have "um_find (m_interface_congestion (event_effects E i state s)) i \<noteq> None"
    using assms by simp
  note touch = touch_interface [OF this]
  show ?thesis
    unfolding handleCongestionEvent_def body
    unfolding out_bind.simps Let_def touch
    by (simp only: event_step_def event_effects_frame)
qed

lemma event_step_frame [simp]:
  "m_interface_congestion (event_step E i state s) = m_interface_congestion s"
  "m_path_rebalancing_enabled (event_step E i state s) = m_path_rebalancing_enabled s"
  "m_ecn_threshold_percent (event_step E i state s) = m_ecn_threshold_percent s"
  "m_last_congestion_check (event_step E i state s) = m_last_congestion_check s"
  "m_last_path_rebalance (event_step E i state s) = m_last_path_rebalance s"
  "m_last_stats_update (event_step E i state s) = m_last_stats_update s"
  "m_congestion_stats (event_step E i state s) =
     um_modify (default_congestion_stats E) i (count_event (m_path_rebalancing_enabled s) state) (m_congestion_stats s)"
  "m_congestion_events (event_step E i state s) =
     pop_to_100 (m_congestion_events s @ [um_at (default_congestion_info E) (m_interface_congestion s) i])"
  "congestion_io (event_step E i state s) = congestion_io s @
     (if state = WARNING then [Db_set APPL_DB (ecn_key E i) (ecn_fvs (m_ecn_threshold_percent s))] else [])"
  by (simp_all add: event_step_def)

lemma event_step_paths:
  "um_find (m_path_info (event_step E i state s)) p =
     (if state = CONGESTED \<and> m_path_rebalancing_enabled s
      then map_option path_update (um_find (m_path_info s) p) else um_find (m_path_info s) p)"
  by (simp add: event_step_def event_effects_def Let_def reweighted_find)

section \<open>Detection\<close>

definition changes :: "(string \<Rightarrow> nat \<times> 64 word) \<Rightarrow> ('c::len) congestion_state \<Rightarrow> string \<Rightarrow> bool" where
  "changes reading s i =
     (case um_find (m_interface_congestion s) i of
        None \<Rightarrow> False
      | Some info \<Rightarrow> ci_state (detected (reading i) info) \<noteq> ci_state info)"

definition new_info :: "('c::len) congestion_env \<Rightarrow> (string \<Rightarrow> nat \<times> 64 word) \<Rightarrow> 'c congestion_state \<Rightarrow> string \<Rightarrow> CongestionInfo" where
  "new_info E reading s i = detected (reading i) (um_at (default_congestion_info E) (m_interface_congestion s) i)"

definition detect_step ::
  "('c::len) congestion_env \<Rightarrow> (string \<Rightarrow> nat \<times> 64 word) \<Rightarrow> string \<Rightarrow> 'c congestion_state \<Rightarrow> 'c congestion_state" where
  "detect_step E reading i s =
     (if um_find (m_interface_congestion s) i = None then s
      else let s1 = s\<lparr>m_interface_congestion :=
                        um_assign i (new_info E reading s i) (m_interface_congestion s)\<rparr>
           in if changes reading s i then event_step E i (ci_state (new_info E reading s i)) s1 else s1)"

lemma detect_interface_Normal: "detect_interface E reading i s = Normal (detect_step E reading i s)"
proof (cases "um_find (m_interface_congestion s) i")
  case None
  then show ?thesis by (simp add: detect_interface_def detect_step_def)
next
  case (Some info)
  then show ?thesis
    by (simp add: detect_interface_def detect_step_def Let_def new_info_def changes_def um_at_def
        handleCongestionEvent_Normal um_find_assign)
qed

lemma detect_step_keys [simp]:
  "um_keys (m_interface_congestion (detect_step E reading i s)) = um_keys (m_interface_congestion s)"
  by (simp add: detect_step_def Let_def um_keys_assign_old)

interpretation detection_loop: loop_body m_interface_congestion
  "detect_interface E reading" "detect_step E reading" for E reading
  by unfold_locales (simp_all add: detect_interface_Normal)

lemma detectCongestion_fold:
  "detectCongestion E reading s =
     Normal (foldl (\<lambda>s i. detect_step E reading i s) s (um_keys (m_interface_congestion s)))"
  by (simp add: detectCongestion_def detection_loop.loop_fold)

text \<open>One interface, then the loop over distinct interfaces.\<close>

lemma detected_simps [simp]:
  "ci_threshold_warning (detected r info) = ci_threshold_warning info"
  "ci_threshold_congested (detected r info) = ci_threshold_congested info"
  "ci_threshold_critical (detected r info) = ci_threshold_critical info"
  "ci_queue_depth (detected r info) = of_nat (fst r mod 100)"
  "ci_timestamp (detected r info) = snd r"
  "ci_state (detected r info) = classify info (of_nat (fst r mod 100))"
  by (simp_all add: detected_def Let_def classify_def)

lemma classify_detected [simp]: "classify (detected r info) d = classify info d"
  by (simp add: classify_def)

lemma detect_step_find:
  "um_find (m_interface_congestion (detect_step E reading i s)) j =
     (if j = i then map_option (detected (reading i)) (um_find (m_interface_congestion s) i)
      else um_find (m_interface_congestion s) j)"
  by (auto simp: detect_step_def Let_def um_find_assign new_info_def um_at_def)

lemma detect_step_frame [simp]:
  "m_path_rebalancing_enabled (detect_step E reading i s) = m_path_rebalancing_enabled s"
  "m_ecn_threshold_percent (detect_step E reading i s) = m_ecn_threshold_percent s"
  "m_last_congestion_check (detect_step E reading i s) = m_last_congestion_check s"
  "m_last_path_rebalance (detect_step E reading i s) = m_last_path_rebalance s"
  "m_last_stats_update (detect_step E reading i s) = m_last_stats_update s"
  by (simp_all add: detect_step_def Let_def)

lemma changes_present: "changes reading s i \<Longrightarrow> um_find (m_interface_congestion s) i \<noteq> None"
  by (auto simp: changes_def split: option.splits)

lemma detect_step_events:
  "m_congestion_events (detect_step E reading i s) =
     (if changes reading s i then pop_to_100 (m_congestion_events s @ [new_info E reading s i])
      else m_congestion_events s)"
  by (auto simp: detect_step_def Let_def um_at_assign dest: changes_present)

lemma detect_step_stats:
  "um_at (default_congestion_stats E) (m_congestion_stats (detect_step E reading i s)) j =
     (if j = i \<and> changes reading s i
      then count_event (m_path_rebalancing_enabled s) (ci_state (new_info E reading s i))
             (um_at (default_congestion_stats E) (m_congestion_stats s) i)
      else um_at (default_congestion_stats E) (m_congestion_stats s) j)"
  by (auto simp: detect_step_def Let_def um_modify_def um_at_assign dest: changes_present)

lemma detect_step_io:
  "congestion_io (detect_step E reading i s) = congestion_io s @
     (if changes reading s i \<and> ci_state (new_info E reading s i) = WARNING
      then [Db_set APPL_DB (ecn_key E i) (ecn_fvs (m_ecn_threshold_percent s))] else [])"
  by (auto simp: detect_step_def Let_def dest: changes_present)

lemma changes_step:
  "changes reading (detect_step E reading i s) j \<longleftrightarrow> j \<noteq> i \<and> changes reading s j"
  by (auto simp: changes_def detect_step_find split: option.split)

lemma new_info_step:
  "j \<noteq> i \<Longrightarrow> new_info E reading (detect_step E reading i s) j = new_info E reading s j"
  by (simp add: new_info_def um_at_def detect_step_find)

abbreviation detect_all ::
  "('c::len) congestion_env \<Rightarrow> (string \<Rightarrow> nat \<times> 64 word) \<Rightarrow> string list \<Rightarrow> 'c congestion_state \<Rightarrow> 'c congestion_state" where
  "detect_all E reading ks s \<equiv> foldl (\<lambda>s i. detect_step E reading i s) s ks"

lemma detect_all_frame [simp]:
  "m_path_rebalancing_enabled (detect_all E reading ks s) = m_path_rebalancing_enabled s"
  "m_ecn_threshold_percent (detect_all E reading ks s) = m_ecn_threshold_percent s"
  "m_last_congestion_check (detect_all E reading ks s) = m_last_congestion_check s"
  "m_last_path_rebalance (detect_all E reading ks s) = m_last_path_rebalance s"
  "m_last_stats_update (detect_all E reading ks s) = m_last_stats_update s"
  by (induction ks arbitrary: s) simp_all

lemma detect_all_find:
  "distinct ks \<Longrightarrow> um_find (m_interface_congestion (detect_all E reading ks s)) j =
     (if j \<in> set ks then map_option (detected (reading j)) (um_find (m_interface_congestion s) j)
      else um_find (m_interface_congestion s) j)"
  by (induction ks arbitrary: s) (auto simp: detect_step_find)

lemma detect_all_stats:
  "distinct ks \<Longrightarrow>
   um_at (default_congestion_stats E) (m_congestion_stats (detect_all E reading ks s)) j =
     (if j \<in> set ks \<and> changes reading s j
      then count_event (m_path_rebalancing_enabled s) (ci_state (new_info E reading s j))
             (um_at (default_congestion_stats E) (m_congestion_stats s) j)
      else um_at (default_congestion_stats E) (m_congestion_stats s) j)"
proof (induction ks arbitrary: s)
  case Nil
  then show ?case by simp
next
  case (Cons k ks)
  then show ?case
    by (cases "j = k") (auto simp: detect_step_stats changes_step new_info_step)
qed

lemma filter_changes_step:
  "k \<notin> set ks \<Longrightarrow> filter (changes reading (detect_step E reading k s)) ks = filter (changes reading s) ks"
  by (rule filter_cong) (auto simp: changes_step)

lemma map_new_info_step:
  "k \<notin> set ks \<Longrightarrow> map (new_info E reading (detect_step E reading k s)) (filter P ks) =
     map (new_info E reading s) (filter P ks)"
  by (rule map_cong) (auto intro!: new_info_step)

lemma detect_all_events:
  "distinct ks \<Longrightarrow> length (m_congestion_events s) \<le> 100 \<Longrightarrow>
   m_congestion_events (detect_all E reading ks s) =
     pop_to_100 (m_congestion_events s @ map (new_info E reading s) (filter (changes reading s) ks))"
proof (induction ks arbitrary: s)
  case Nil
  then show ?case by (simp add: pop_to_100_drop)
next
  case (Cons k ks)
  have "length (m_congestion_events (detect_step E reading k s)) \<le> 100"
    using Cons.prems(2) by (simp add: detect_step_events pop_to_100_length)
  from Cons.IH [OF _ this] Cons.prems show ?case
    by (simp add: detect_step_events filter_changes_step map_new_info_step pop_to_100_append)
qed

lemma detect_all_io:
  "distinct ks \<Longrightarrow>
   congestion_io (detect_all E reading ks s) = congestion_io s @
     map (\<lambda>i. Db_set APPL_DB (ecn_key E i) (ecn_fvs (m_ecn_threshold_percent s)))
       (filter (\<lambda>i. changes reading s i \<and> ci_state (new_info E reading s i) = WARNING) ks)"
proof (induction ks arbitrary: s)
  case Nil
  then show ?case by simp
next
  case (Cons k ks)
  have "filter (\<lambda>i. changes reading (detect_step E reading k s) i \<and>
        ci_state (new_info E reading (detect_step E reading k s) i) = WARNING) ks =
      filter (\<lambda>i. changes reading s i \<and> ci_state (new_info E reading s i) = WARNING) ks"
  proof (rule filter_cong [OF refl])
    fix i assume "i \<in> set ks"
    with Cons.prems have "i \<noteq> k" by auto
    then show "(changes reading (detect_step E reading k s) i \<and>
        ci_state (new_info E reading (detect_step E reading k s) i) = WARNING) =
      (changes reading s i \<and> ci_state (new_info E reading s i) = WARNING)"
      by (simp add: changes_step new_info_step)
  qed
  with Cons show ?case by (simp add: detect_step_io)
qed

section \<open>Configuration, severity and timers\<close>

lemma congestion_fields_append:
  "congestion_fields (xs @ ys) s = out_bind (congestion_fields xs s) (congestion_fields ys)"
proof (induction xs s rule: congestion_fields.induct)
  case (2 field "value" fs s)
  then show ?case by (cases "stoi value") simp_all
qed simp

lemmas severity_order = less_eq_CongestionState_def less_CongestionState_def

lemma classify_mono: "d \<le> d' \<Longrightarrow> classify info d \<le> classify info d'"
  by (auto simp: classify_def severity_order dest: order_trans)

lemma depth_below_100: "unat (of_nat (r mod 100) :: 32 word) < 100"
  by (simp add: unat_of_nat take_bit_nat_eq_self)

lemma publish_congestion_frame [simp]:
  "um_keys (m_congestion_stats (publish_congestion E i s)) = um_keys (m_congestion_stats s)"
  "m_path_info (publish_congestion E i s) = m_path_info s"
  "m_last_stats_update (publish_congestion E i s) = m_last_stats_update s"
  by (simp_all add: publish_congestion_def)

interpretation congestion_publish_loop: loop_body m_congestion_stats
  "\<lambda>i s. Normal (publish_congestion E i s)" "publish_congestion E" for E
  by unfold_locales simp_all

lemma updateCongestionStatistics_Normal:
  "\<exists>s'. updateCongestionStatistics E s = Normal s' \<and> m_path_info s' = m_path_info s \<and>
     m_last_stats_update s' = m_last_stats_update s"
proof -
  have "m_path_info (foldl (\<lambda>s i. publish_congestion E i s) s ks) = m_path_info s \<and>
      m_last_stats_update (foldl (\<lambda>s i. publish_congestion E i s) s ks) = m_last_stats_update s" for ks
    by (induction ks arbitrary: s) simp_all
  then show ?thesis by (simp add: updateCongestionStatistics_def congestion_publish_loop.loop_fold)
qed

text \<open>What the undefined member would have to leave alone.\<close>

definition keeps_stamp :: "('c::len) congestion_env \<Rightarrow> bool" where
  "keeps_stamp E \<longleftrightarrow>
     (\<forall>s s'. updateCongestionState E s = Normal s' \<longrightarrow> m_last_stats_update s' = m_last_stats_update s)"

lemma congestion_periodic_stamp:
  assumes "keeps_stamp E" and "congestion_doPeriodicTask E reading now s = Normal s'"
  shows "m_last_stats_update s' =
    (if 5000 \<le> now - m_last_stats_update s then now else m_last_stats_update s)"
proof -
  from assms(2) obtain s1 s2 where
      1: "detection_block E reading now s = Normal s1" and
      2: "rebalancing_block now s1 = Normal s2" and
      3: "statistics_block E now s2 = Normal s'"
    by (auto simp: congestion_doPeriodicTask_def out_bind_Normal_iff)
  have "m_last_stats_update s1 = m_last_stats_update s"
    using 1 assms(1)
    by (auto simp: detection_block_def out_bind_Normal_iff keeps_stamp_def detectCongestion_fold split: if_splits)
  moreover have "m_last_stats_update s2 = m_last_stats_update s1"
    using 2 by (auto simp: rebalancing_block_def rebalancePaths_Normal split: if_splits)
  ultimately show ?thesis
    using 3 updateCongestionStatistics_Normal [of E s2]
    by (auto simp: statistics_block_def out_bind_Normal_iff split: if_splits)
qed

lemma word_elapsed:
  fixes last_ms :: "64 word"
  assumes "uint last_ms \<le> t" and "t < 2 ^ 64"
  shows "uint (word_of_int t - last_ms) = t - uint last_ms" and "uint (word_of_int t :: 64 word) = t"
proof -
  have "0 \<le> uint last_ms" by simp
  with assms have "0 \<le> t" by linarith
  then show t: "uint (word_of_int t :: 64 word) = t"
    using assms(2) by (simp add: take_bit_int_eq_self unsigned_of_int)
  then show "uint (word_of_int t - last_ms) = t - uint last_ms"
    using assms(1) by (simp only: uint_sub_if' if_True)
qed

lemma congestion_stats_job:
  assumes "keeps_stamp E"
  shows "periodic_job (\<lambda>t. congestion_doPeriodicTask E (reading t) (word_of_int t))
    (\<lambda>s. uint (m_last_stats_update s)) 5000 (2 ^ 64)"
proof
  fix s s' :: "'a congestion_state" and t :: int
  assume t: "uint (m_last_stats_update s) \<le> t" "t < 2 ^ 64"
    and "congestion_doPeriodicTask E (reading t) (word_of_int t) s = Normal s'"
  note word_elapsed [OF t] congestion_periodic_stamp [OF assms this(3)]
  moreover have "5000 \<le> (word_of_int t :: 64 word) - m_last_stats_update s \<longleftrightarrow>
      5000 \<le> t - uint (m_last_stats_update s)"
    using word_elapsed [OF t] by (simp add: word_le_def)
  ultimately show "uint (m_last_stats_update s') =
      (if 5000 \<le> t - uint (m_last_stats_update s) then t else uint (m_last_stats_update s))"
    by simp
qed simp

section \<open>An example\<close>

definition congestion_ex_env :: "64 congestion_env" where
  "congestion_ex_env =
     \<lparr>APP_UE_CONGESTION_STATE_TABLE_NAME = ''UE_CONGESTION'',
      STATE_UE_CONGESTION_STATS_TABLE_NAME = ''UE_CONGESTION_STATS'',
      default_congestion_info =
        \<lparr>ci_state = NORMAL, ci_queue_depth = 0, ci_threshold_warning = 60, ci_threshold_congested = 80,
         ci_threshold_critical = 95, ci_timestamp = 0\<rparr>,
      default_congestion_stats =
        \<lparr>congestion_events = 0, ecn_marked_packets = 0, dropped_packets = 0,
         path_rebalance_events = 0, avg_queue_depth = 0, max_queue_depth = 0\<rparr>,
      congestion_processInterfaceConfig = (\<lambda>i _ _ s. Normal
        (s\<lparr>m_interface_congestion := um_assign i
             \<lparr>ci_state = NORMAL, ci_queue_depth = 0, ci_threshold_warning = 60,
              ci_threshold_congested = 80, ci_threshold_critical = 95, ci_timestamp = 0\<rparr>
             (m_interface_congestion s)\<rparr>)),
      updateCongestionState = Normal\<rparr>"

definition congestion_ex :: "64 congestion_state" where
  "congestion_ex = UECongestionManager\<lparr>m_interface_congestion :=
     [(''Ethernet0'', default_congestion_info congestion_ex_env),
      (''Ethernet4'', default_congestion_info congestion_ex_env)]\<rparr>"

definition congestion_ex_reading :: "string \<Rightarrow> nat \<times> 64 word" where
  "congestion_ex_reading i = (if i = ''Ethernet0'' then (165, 1000) else (103, 1001))"

section \<open>Properties\<close>

text \<open>
  Property C29: a threshold that \<open>std::stoi\<close> cannot read takes down a configuration update
  half way: the fields before it are applied, the exception leaves \<open>doTask\<close>, and the task
  stays in the queue in front of the others.
\<close>

theorem congestion_bad_threshold:
  assumes "kfvKey t = ''global''" and "kfvOp t = SET_COMMAND"
    and "kfvFieldsValues t = before @ (field, v) # after"
    and "field \<in> {''ecn_threshold_percent'', ''drop_threshold_percent''}" and "stoi v = Inl e"
    and "congestion_fields before s = Normal s1"
  shows "congestion_doTask E Config_consumer s (t # ts) = (Throws e s1, t # ts)"
  using assms
  by (auto simp: congestion_doTask_def congestion_handle_def processCongestionConfig_def congestion_fields_append)

theorem congestion_bad_threshold_witness:
  "congestion_doTask congestion_ex_env Config_consumer congestion_ex
     [\<lparr>kfvKey = ''global'', kfvOp = SET_COMMAND,
       kfvFieldsValues = [(''real_time_feedback'', ''no''), (''ecn_threshold_percent'', ''many'')]\<rparr>] =
   (Throws Invalid_argument (congestion_ex\<lparr>m_real_time_feedback := False\<rparr>),
    [\<lparr>kfvKey = ''global'', kfvOp = SET_COMMAND,
       kfvFieldsValues = [(''real_time_feedback'', ''no''), (''ecn_threshold_percent'', ''many'')]\<rparr>])"
  by (rule congestion_bad_threshold [where before = "[(''real_time_feedback'', ''no'')]" and after = "[]"
        and field = "''ecn_threshold_percent''" and v = "''many''"])
    (simp_all add: text_eval)

text \<open>
  One pass of the detection classifies every interface by the depth just read,
  independently of the others and of its previous state, and leaves its thresholds alone.
\<close>

theorem detection_classifies:
  assumes "um_wf (m_interface_congestion s)"
  shows "\<exists>s'. detectCongestion E reading s = Normal s' \<and>
    (\<forall>i. um_find (m_interface_congestion s') i =
       map_option (\<lambda>info. info\<lparr>ci_state := classify info (of_nat (fst (reading i) mod 100)),
           ci_queue_depth := of_nat (fst (reading i) mod 100), ci_timestamp := snd (reading i)\<rparr>)
         (um_find (m_interface_congestion s) i))"
proof -
  have d: "detected r = (\<lambda>info. info\<lparr>ci_state := classify info (of_nat (fst r mod 100)),
      ci_queue_depth := of_nat (fst r mod 100), ci_timestamp := snd r\<rparr>)" for r
    by (simp add: detected_def Let_def fun_eq_iff)
  have "distinct (um_keys (m_interface_congestion s))"
    using assms by (simp add: um_wf_def)
  from detect_all_find [OF this, of E reading s] show ?thesis
    unfolding detectCongestion_fold by (auto simp: um_keys_find d)
qed

theorem detection_classifies_witness:
  "\<exists>s'. detectCongestion congestion_ex_env congestion_ex_reading congestion_ex = Normal s' \<and>
     map_option ci_state (um_find (m_interface_congestion s') ''Ethernet0'') = Some WARNING"
proof -
  have "um_wf (m_interface_congestion congestion_ex)"
    by (simp add: congestion_ex_def um_wf_def um_keys_def)
  from detection_classifies [OF this, of congestion_ex_env congestion_ex_reading] show ?thesis
    by (auto simp: congestion_ex_def um_find_def classify_def congestion_ex_reading_def congestion_ex_env_def)
qed

text \<open>
  A pass appends exactly one event per interface whose state changed, in the
  order of the pass, and keeps the last hundred; it adds one to the event count of exactly
  those interfaces.
\<close>

theorem detection_events:
  assumes "um_wf (m_interface_congestion s)" and "length (m_congestion_events s) \<le> 100"
    and "detectCongestion E reading s = Normal s'"
  shows "(let new = map (new_info E reading s) (filter (changes reading s) (um_keys (m_interface_congestion s)));
              q = m_congestion_events s @ new
          in m_congestion_events s' = drop (length q - 100) q) \<and>
    length (m_congestion_events s') \<le> 100 \<and>
    (\<forall>i. congestion_events (um_at (default_congestion_stats E) (m_congestion_stats s') i) =
         congestion_events (um_at (default_congestion_stats E) (m_congestion_stats s) i) +
         (if changes reading s i then 1 else 0))"
proof -
  have dist: "distinct (um_keys (m_interface_congestion s))"
    using assms(1) by (simp add: um_wf_def)
  have s': "s' = detect_all E reading (um_keys (m_interface_congestion s)) s"
    using assms(3) by (simp add: detectCongestion_fold)
  have present: "i \<in> set (um_keys (m_interface_congestion s))" if "changes reading s i" for i
    using changes_present [OF that] by (simp add: um_keys_find)
  have one: "congestion_events (count_event b st x) = congestion_events x + 1" for b st x
    by (cases st) (simp_all add: count_event_def Let_def)
  show ?thesis
    unfolding s' detect_all_events [OF dist assms(2)]
    using present by (auto simp: Let_def pop_to_100_drop detect_all_stats [OF dist] one)
qed

theorem detection_events_witness:
  "\<exists>s'. detectCongestion congestion_ex_env congestion_ex_reading congestion_ex = Normal s' \<and>
    length (m_congestion_events s') = 1 \<and>
    congestion_events (um_at (default_congestion_stats congestion_ex_env) (m_congestion_stats s') ''Ethernet0'') = 1"
proof -
  define s' where "s' = detect_all congestion_ex_env congestion_ex_reading
    (um_keys (m_interface_congestion congestion_ex)) congestion_ex"
  have wf: "um_wf (m_interface_congestion congestion_ex)"
    by (simp add: congestion_ex_def um_wf_def um_keys_def)
  have len: "length (m_congestion_events congestion_ex) \<le> 100"
    by (simp add: congestion_ex_def UECongestionManager_def)
  have run: "detectCongestion congestion_ex_env congestion_ex_reading congestion_ex = Normal s'"
    by (simp add: detectCongestion_fold s'_def)
  have ch: "changes congestion_ex_reading congestion_ex ''Ethernet0''"
    "\<not> changes congestion_ex_reading congestion_ex ''Ethernet4''"
    by (simp_all add: changes_def congestion_ex_def um_find_def congestion_ex_env_def classify_def
        congestion_ex_reading_def)
  show ?thesis
    using detection_events [OF wf len run] run ch
    by (auto simp: congestion_ex_def UECongestionManager_def um_keys_def um_at_def um_find_def
        congestion_ex_env_def Let_def)
qed

text \<open>
  The classification grows with the depth: a deeper queue never yields a less
  severe state; and since a reading is below 100, a threshold of 100 is never reached.
\<close>

theorem classification_monotone:
  assumes "d \<le> d'"
  shows "classify info d \<le> classify info d' \<and>
    (100 \<le> ci_threshold_critical info \<longrightarrow> ci_state (detected r info) < CRITICAL)"
proof -
  have "\<not> 100 \<le> (of_nat (fst r mod 100) :: 32 word)"
    using depth_below_100 [of "fst r"] by (simp add: word_le_nat_alt)
  then have "\<not> ci_threshold_critical info \<le> of_nat (fst r mod 100)" if "100 \<le> ci_threshold_critical info"
    using that by (meson order_trans)
  then show ?thesis
    using classify_mono [OF assms] by (auto simp: classify_def severity_order)
qed

theorem classification_monotone_witness:
  "classify (default_congestion_info congestion_ex_env) 61 \<le> classify (default_congestion_info congestion_ex_env) 95"
  using classification_monotone [of 61 95 "default_congestion_info congestion_ex_env"] by simp

text \<open>
  Rebalancing gives every path a weight that depends on its congestion state
  only and does not grow with its severity; a path is available exactly when it is not in
  the critical state, which is also exactly when its weight is not zero; and rebalancing
  again changes nothing.
\<close>

theorem path_weights_by_severity:
  assumes "um_find (m_path_info s) p = Some path" and "um_find (m_path_info s) q = Some other"
  shows "\<exists>s' path' other'. updatePathWeights s = Normal s' \<and>
    um_find (m_path_info s') p = Some path' \<and> um_find (m_path_info s') q = Some other' \<and>
    pa_congestion_state path' = pa_congestion_state path \<and>
    (pa_congestion_state path \<le> pa_congestion_state other \<longrightarrow> pa_weight other' \<le> pa_weight path') \<and>
    (pa_available path' \<longleftrightarrow> pa_congestion_state path < CRITICAL) \<and>
    (pa_available path' \<longleftrightarrow> pa_weight path' \<noteq> 0) \<and>
    (\<forall>s''. updatePathWeights s' = Normal s'' \<longrightarrow> um_find (m_path_info s'') p = Some path')"
proof -
  have find: "um_find (m_path_info (reweighted s)) p = Some (path_update path)"
    "um_find (m_path_info (reweighted s)) q = Some (path_update other)"
    "um_find (m_path_info (reweighted (reweighted s))) p = Some (path_update path)"
    using assms by (simp_all add: reweighted_find)
  have "pa_congestion_state (path_update path) = pa_congestion_state path"
    and "pa_congestion_state path \<le> pa_congestion_state other \<Longrightarrow> pa_weight (path_update other) \<le> pa_weight (path_update path)"
    and "pa_available (path_update path) \<longleftrightarrow> pa_congestion_state path < CRITICAL"
    and "pa_available (path_update path) \<longleftrightarrow> pa_weight (path_update path) \<noteq> 0"
    by (cases "pa_congestion_state path"; cases "pa_congestion_state other";
        simp add: path_update_def severity_order)+
  with find show ?thesis by (simp add: updatePathWeights_Normal)
qed

theorem path_weights_by_severity_witness:
  "\<exists>s' path' other'. updatePathWeights (congestion_ex\<lparr>m_path_info :=
      [(''Ethernet0'', \<lparr>pa_weight = 7, pa_available = True, pa_congestion_state = WARNING\<rparr>),
       (''Ethernet4'', \<lparr>pa_weight = 9, pa_available = True, pa_congestion_state = CRITICAL\<rparr>)]\<rparr>) = Normal s' \<and>
    um_find (m_path_info s') ''Ethernet0'' = Some path' \<and> um_find (m_path_info s') ''Ethernet4'' = Some other' \<and>
    pa_weight other' \<le> pa_weight path'"
  using path_weights_by_severity [of "congestion_ex\<lparr>m_path_info :=
      [(''Ethernet0'', \<lparr>pa_weight = 7, pa_available = True, pa_congestion_state = WARNING\<rparr>),
       (''Ethernet4'', \<lparr>pa_weight = 9, pa_available = True, pa_congestion_state = CRITICAL\<rparr>)]\<rparr>"
     "''Ethernet0''" _ "''Ethernet4''"]
  by (fastforce simp: um_find_def severity_order)

text \<open>
  ECN marking is switched on by the transition to the warning state and is
  never switched off: what a pass leaves published for an interface is the new setting if
  it just entered that state, and what was there before in every other case.
\<close>

theorem ecn_marking_latched:
  assumes "um_wf (m_interface_congestion s)" and "detectCongestion E reading s = Normal s'"
  shows "published (congestion_io s') APPL_DB (ecn_key E i) =
    (if changes reading s i \<and> ci_state (new_info E reading s i) = WARNING
     then Some (ecn_fvs (m_ecn_threshold_percent s))
     else published (congestion_io s) APPL_DB (ecn_key E i))"
proof -
  define ks where "ks = filter (\<lambda>i. changes reading s i \<and> ci_state (new_info E reading s i) = WARNING)
    (um_keys (m_interface_congestion s))"
  have "distinct (um_keys (m_interface_congestion s))"
    using assms(1) by (simp add: um_wf_def)
  from detect_all_io [OF this, of E reading s] assms(2)
  have io: "congestion_io s' = congestion_io s @
      map (\<lambda>i. Db_set APPL_DB (ecn_key E i) (ecn_fvs (m_ecn_threshold_percent s))) ks"
    by (simp add: detectCongestion_fold ks_def)
  note published_map [OF ecn_key_inj, of "congestion_io s" APPL_DB E "\<lambda>_. ecn_fvs (m_ecn_threshold_percent s)" ks i]
  moreover have "i \<in> set ks \<longleftrightarrow> changes reading s i \<and> ci_state (new_info E reading s i) = WARNING"
    using changes_present [of reading s i] by (auto simp: ks_def um_keys_find)
  ultimately show ?thesis by (simp add: io)
qed

theorem ecn_marking_latched_witness:
  "\<exists>s'. detectCongestion congestion_ex_env congestion_ex_reading congestion_ex = Normal s' \<and>
    published (congestion_io s') APPL_DB (ecn_key congestion_ex_env ''Ethernet0'') = Some (ecn_fvs 80)"
proof -
  define s' where "s' = detect_all congestion_ex_env congestion_ex_reading
    (um_keys (m_interface_congestion congestion_ex)) congestion_ex"
  have wf: "um_wf (m_interface_congestion congestion_ex)"
    by (simp add: congestion_ex_def um_wf_def um_keys_def)
  have run: "detectCongestion congestion_ex_env congestion_ex_reading congestion_ex = Normal s'"
    by (simp add: detectCongestion_fold s'_def)
  have "published (congestion_io s') APPL_DB (ecn_key congestion_ex_env ''Ethernet0'') = Some (ecn_fvs 80)"
    by (subst ecn_marking_latched [OF wf run])
      (simp add: changes_def new_info_def um_at_def congestion_ex_def um_find_def congestion_ex_env_def
        classify_def congestion_ex_reading_def UECongestionManager_def)
  with run show ?thesis by blast
qed

lemma congestion_periodic_returns:
  assumes "updateCongestionState E = Normal"
  shows "\<exists>s'. congestion_doPeriodicTask E reading now s = Normal s'"
proof -
  have "\<exists>s1. detection_block E reading now s = Normal s1"
    by (simp add: detection_block_def detectCongestion_fold assms)
  moreover have "\<exists>s2. rebalancing_block now t = Normal s2" for t :: "'a congestion_state"
    by (simp add: rebalancing_block_def rebalancePaths_Normal)
  moreover have "\<exists>s3. statistics_block E now t = Normal s3" for t
    using updateCongestionStatistics_Normal [of E t] by (auto simp: statistics_block_def)
  ultimately show ?thesis
    by (auto simp: congestion_doPeriodicTask_def) (metis out_bind.simps(1))
qed

text \<open>
  With rebalancing switched off, the periodic task never touches a path
  weight, whatever the congestion (if the undefined \<open>updateCongestionState\<close> does not touch
  the paths or the switch).
\<close>

theorem rebalancing_switch:
  assumes "\<not> m_path_rebalancing_enabled s"
    and "\<forall>s s'. updateCongestionState E s = Normal s' \<longrightarrow> m_path_info s' = m_path_info s \<and>
           m_path_rebalancing_enabled s' = m_path_rebalancing_enabled s"
    and "congestion_doPeriodicTask E reading now s = Normal s'"
  shows "m_path_info s' = m_path_info s"
proof -
  have step: "m_path_info (detect_step E reading i t) = m_path_info t" if "\<not> m_path_rebalancing_enabled t" for i t
    using that by (simp add: detect_step_def Let_def event_step_def event_effects_def)
  have all: "m_path_info (detect_all E reading ks s) = m_path_info s" for ks
    using assms(1) by (induction ks rule: rev_induct) (simp_all add: step)
  from assms(3) obtain s1 s2 where
      1: "detection_block E reading now s = Normal s1" and
      2: "rebalancing_block now s1 = Normal s2" and
      3: "statistics_block E now s2 = Normal s'"
    by (auto simp: congestion_doPeriodicTask_def out_bind_Normal_iff)
  have "m_path_info s1 = m_path_info s" and "\<not> m_path_rebalancing_enabled s1"
    using 1 assms(1,2)
    by (auto simp: detection_block_def out_bind_Normal_iff detectCongestion_fold all split: if_splits)
  moreover from this 2 have "s2 = s1" by (simp add: rebalancing_block_def)
  ultimately show ?thesis
    using 3 updateCongestionStatistics_Normal [of E s2]
    by (auto simp: statistics_block_def out_bind_Normal_iff split: if_splits)
qed

theorem rebalancing_switch_witness:
  "\<exists>s'. congestion_doPeriodicTask congestion_ex_env congestion_ex_reading 10000
      (congestion_ex\<lparr>m_path_rebalancing_enabled := False, m_path_info :=
        [(''Ethernet0'', \<lparr>pa_weight = 7, pa_available = True, pa_congestion_state = CRITICAL\<rparr>)]\<rparr>) = Normal s' \<and>
    m_path_info s' = [(''Ethernet0'', \<lparr>pa_weight = 7, pa_available = True, pa_congestion_state = CRITICAL\<rparr>)]"
proof -
  define s where "s = congestion_ex\<lparr>m_path_rebalancing_enabled := False, m_path_info :=
        [(''Ethernet0'', \<lparr>pa_weight = 7, pa_available = True, pa_congestion_state = CRITICAL\<rparr>)]\<rparr>"
  have env: "updateCongestionState congestion_ex_env = Normal"
    by (simp add: congestion_ex_env_def)
  obtain s' where run: "congestion_doPeriodicTask congestion_ex_env congestion_ex_reading 10000 s = Normal s'"
    using congestion_periodic_returns [OF env] by blast
  have "m_path_info s' = m_path_info s"
    by (rule rebalancing_switch [OF _ _ run]) (simp_all add: s_def env)
  with run show ?thesis by (auto simp: s_def)
qed

text \<open>
  Two statistics passes are at least five seconds apart on a clock that does
  not run backwards and fits 64 bits (if \<open>updateCongestionState\<close> leaves the stamp alone).
\<close>

theorem congestion_statistics_spaced:
  assumes "keeps_stamp E" and "sorted (uint (m_last_stats_update s) # ts)" and "\<forall>t \<in> set ts. t < 2 ^ 64"
  shows "sorted_wrt (\<lambda>a b. a + 5000 \<le> b)
    (fire_times (\<lambda>t. congestion_doPeriodicTask E (reading t) (word_of_int t))
      (\<lambda>s. uint (m_last_stats_update s)) 5000 ts s)"
  by (rule periodic_job.fire_times_spaced [OF congestion_stats_job [OF assms(1)] assms(2,3)])

theorem congestion_statistics_spaced_witness:
  "sorted_wrt (\<lambda>a b. a + 5000 \<le> b)
    (fire_times (\<lambda>t. congestion_doPeriodicTask congestion_ex_env (\<lambda>_. (0, 0)) (word_of_int t))
      (\<lambda>s. uint (m_last_stats_update s)) 5000 [5000, 6000, 10000] congestion_ex)"
  by (rule congestion_statistics_spaced)
    (simp_all add: keeps_stamp_def congestion_ex_env_def congestion_ex_def UECongestionManager_def)

end
