(* ===== verification/Transport_Daemon.thy ===== *)
theory Transport_Daemon
  imports Flow_Manager Congestion_Manager
begin

text \<open>
  \<open>sonic-ue-transportd/src/ue_transportd.cpp\<close>: the main loop that drives the flow manager
  and the congestion manager. What \<open>Selectable::readData\<close> reads and does to a manager is not
  part of the repository: it stays a parameter, a function of the data that has become
  readable and the state of the manager.
\<close>

section \<open>State\<close>

record (overloaded) ('p, 'c, 'r, 'd) daemon =
  g_running :: bool
  flow_manager :: "('p::len, 'c::len, 'r::len) flow_state"
  congestion_manager :: "'d::len congestion_state"

record (overloaded) ('p, 'c, 'r, 'd, 'm) daemon_env =
  de_flow :: flow_env
  de_congestion :: "'d::len congestion_env"
  readData_flow :: "'m \<Rightarrow> ('p::len, 'c::len, 'r::len) flow_state \<Rightarrow> ('p, 'c, 'r) flow_state outcome"
  readData_congestion :: "'m \<Rightarrow> 'd congestion_state \<Rightarrow> 'd congestion_state outcome"

definition daemon_start :: "('p::len, 'c::len, 'r::len, 'd::len) daemon" where
  "daemon_start =
     \<lparr>g_running = True, flow_manager = UEFlowManager, congestion_manager = UECongestionManager\<rparr>"

section \<open>The loop\<close>

text \<open>
  What \<open>select\<close> returned: one of the two managers with the data to read, a timeout with the clocks the periodic
  tasks read and the readings of the detection, or anything else.
\<close>

datatype 'm select_result =
    Object_flow 'm
  | Object_congestion 'm
  | Timeout int int "64 word" "string \<Rightarrow> nat \<times> 64 word"
  | Select_other

datatype 'm daemon_event = Signalled | Select_returned "'m select_result"

datatype 's exit_state = Running 's | Exited int | Crashed ub

fun map_outcome :: "('a \<Rightarrow> 'b) \<Rightarrow> 'a outcome \<Rightarrow> 'b outcome" where
  "map_outcome f (Normal s) = Normal (f s)"
| "map_outcome f (Throws e s) = Throws e (f s)"
| "map_outcome f (Undefined u) = Undefined u"

definition on_flow ::
  "(('p, 'c, 'r) flow_state \<Rightarrow> ('p, 'c, 'r) flow_state outcome) \<Rightarrow>
   ('p::len, 'c::len, 'r::len, 'd::len) daemon \<Rightarrow> ('p, 'c, 'r, 'd) daemon outcome" where
  "on_flow f d = map_outcome (\<lambda>m. d\<lparr>flow_manager := m\<rparr>) (f (flow_manager d))"

definition on_congestion ::
  "('d congestion_state \<Rightarrow> 'd congestion_state outcome) \<Rightarrow>
   ('p::len, 'c::len, 'r::len, 'd::len) daemon \<Rightarrow> ('p, 'c, 'r, 'd) daemon outcome" where
  "on_congestion f d = map_outcome (\<lambda>m. d\<lparr>congestion_manager := m\<rparr>) (f (congestion_manager d))"

definition daemon_step ::
  "('p::len, 'c::len, 'r::len, 'd::len, 'm) daemon_env \<Rightarrow> 'm select_result \<Rightarrow> ('p, 'c, 'r, 'd) daemon \<Rightarrow>
   ('p, 'c, 'r, 'd) daemon outcome" where
  "daemon_step E r d =
     (case r of
        Object_flow m \<Rightarrow> on_flow (readData_flow E m) d
      | Object_congestion m \<Rightarrow> on_congestion (readData_congestion E m) d
      | Timeout now now' now_ms reading \<Rightarrow>
          out_bind (on_flow (flow_doPeriodicTask (de_flow E) now now') d)
            (on_congestion (congestion_doPeriodicTask (de_congestion E) reading now_ms))
      | Select_other \<Rightarrow> Normal d)"

text \<open>
  \<open>main\<close>: the flag is tested at the top of the loop, a signal may clear it at any time, and
  an exception ends the loop with exit code 1.
\<close>

fun daemon_main ::
  "('p::len, 'c::len, 'r::len, 'd::len, 'm) daemon_env \<Rightarrow> 'm daemon_event list \<Rightarrow> ('p, 'c, 'r, 'd) daemon \<Rightarrow>
   ('p, 'c, 'r, 'd) daemon exit_state" where
  "daemon_main E [] d = (if g_running d then Running d else Exited 0)"
| "daemon_main E (Signalled # es) d = daemon_main E es (d\<lparr>g_running := False\<rparr>)"
| "daemon_main E (Select_returned r # es) d =
     (if \<not> g_running d then Exited 0
      else case daemon_step E r d of
        Normal d' \<Rightarrow> daemon_main E es d'
      | Throws e d' \<Rightarrow> Exited 1
      | Undefined u \<Rightarrow> Crashed u)"

text \<open>
  \<open>main\<close> from its start: the handlers are installed first, so a signal during the construction
  of the managers clears the flag before the loop tests it; a failing construction is caught.
\<close>

datatype startup = Constructed | Construction_throws

definition transport_main ::
  "('p::len, 'c::len, 'r::len, 'd::len, 'm) daemon_env \<Rightarrow> bool \<Rightarrow> startup \<Rightarrow> 'm daemon_event list \<Rightarrow>
   ('p, 'c, 'r, 'd) daemon exit_state" where
  "transport_main E signalled start es =
     (case start of
        Construction_throws \<Rightarrow> Exited 1
      | Constructed \<Rightarrow> daemon_main E es (daemon_start\<lparr>g_running := \<not> signalled\<rparr>))"

section \<open>Idle managers\<close>

text \<open>A flow manager that has nothing to do yet, and a congestion manager without interfaces.\<close>

definition idle :: "('p::len, 'c::len, 'r::len, 'd::len) daemon \<Rightarrow> bool" where
  "idle d \<longleftrightarrow>
     m_active_flows (flow_manager d) = [] \<and> m_flow_stats (flow_manager d) = [] \<and>
     flow_io (flow_manager d) = [] \<and> transport_config_ok (flow_manager d) \<and>
     m_interface_congestion (congestion_manager d) = [] \<and> m_congestion_stats (congestion_manager d) = [] \<and>
     congestion_io (congestion_manager d) = []"

lemma idle_start: "idle daemon_start"
  by (simp add: idle_def daemon_start_def UEFlowManager_def UECongestionManager_def transport_config_ok_def)

lemma flow_periodic_idle:
  assumes "m_active_flows s = []" and "m_flow_stats s = []" and "flow_io s = []" and "transport_config_ok s"
  shows "\<exists>s'. flow_doPeriodicTask E now now' s = Normal s' \<and> m_active_flows s' = [] \<and>
    m_flow_stats s' = [] \<and> flow_io s' = [] \<and> transport_config_ok s'"
proof -
  have u: "updateFlowStatistics E t = Normal t" if "m_flow_stats t = []" for t :: "('a, 'b, 'c) flow_state"
    by (simp add: updateFlowStatistics_def range_for_empty that)
  have c: "cleanupExpiredFlows E n t = t" if "m_active_flows t = []" for n and t :: "('a, 'b, 'c) flow_state"
    by (simp add: cleanupExpiredFlows_def that)
  show ?thesis
    using assms
    by (cases "1 \<le> now - flow_last_stats_update s"; cases "60 \<le> now - flow_last_cleanup s";
        cases "300 \<le> now - flow_last_report s")
      (simp_all add: flow_doPeriodicTask_def Let_def u c)
qed

text \<open>What is asked of the undefined member: with no interface, it returns and publishes nothing.\<close>

definition update_keeps_idle :: "('d::len) congestion_env \<Rightarrow> bool" where
  "update_keeps_idle E \<longleftrightarrow>
     (\<forall>s. m_interface_congestion s = [] \<and> m_congestion_stats s = [] \<and> congestion_io s = [] \<longrightarrow>
        (\<exists>s'. updateCongestionState E s = Normal s' \<and> m_interface_congestion s' = [] \<and>
           m_congestion_stats s' = [] \<and> congestion_io s' = []))"

lemma congestion_periodic_idle:
  assumes "update_keeps_idle E" and "m_interface_congestion s = []"
    and "m_congestion_stats s = []" and "congestion_io s = []"
  shows "\<exists>s'. congestion_doPeriodicTask E reading now s = Normal s' \<and> m_interface_congestion s' = [] \<and>
    m_congestion_stats s' = [] \<and> congestion_io s' = []"
proof -
  obtain s1 where 1: "detection_block E reading now s = Normal s1" "m_interface_congestion s1 = []"
      "m_congestion_stats s1 = []" "congestion_io s1 = []"
  proof (cases "ucast (m_congestion_detection_interval_ms s) \<le> now - m_last_congestion_check s")
    case True
    obtain s' where "updateCongestionState E s = Normal s'" "m_interface_congestion s' = []"
        "m_congestion_stats s' = []" "congestion_io s' = []"
      using assms unfolding update_keeps_idle_def by blast
    with True assms(2) show thesis
      by (intro that [of "s'\<lparr>m_last_congestion_check := now\<rparr>"])
        (simp_all add: detection_block_def detectCongestion_def range_for_empty)
  next
    case False
    with assms show thesis by (intro that) (simp_all add: detection_block_def)
  qed
  obtain s2 where 2: "rebalancing_block now s1 = Normal s2" "m_interface_congestion s2 = []"
      "m_congestion_stats s2 = []" "congestion_io s2 = []"
    using 1 by (cases "m_path_rebalancing_enabled s1 \<and> 1000 \<le> now - m_last_path_rebalance s1")
      (simp_all add: rebalancing_block_def rebalancePaths_Normal)
  obtain s3 where "statistics_block E now s2 = Normal s3" "m_interface_congestion s3 = []"
      "m_congestion_stats s3 = []" "congestion_io s3 = []"
    using 2 by (cases "5000 \<le> now - m_last_stats_update s2")
      (simp_all add: statistics_block_def updateCongestionStatistics_def range_for_empty)
  with 1 2 show ?thesis by (simp add: congestion_doPeriodicTask_def)
qed

text \<open>
  Reading that leaves the managers alone, as the framework's own \<open>readData\<close> does: it moves what
  arrived into the framework's queues.
\<close>

definition only_reads :: "('p::len, 'c::len, 'r::len, 'd::len, 'm) daemon_env \<Rightarrow> 'm select_result \<Rightarrow> bool" where
  "only_reads E r \<longleftrightarrow>
     (case r of
        Object_flow m \<Rightarrow> \<forall>s. readData_flow E m s = Normal s
      | Object_congestion m \<Rightarrow> \<forall>s. readData_congestion E m s = Normal s
      | _ \<Rightarrow> True)"

lemma daemon_step_idle:
  assumes "update_keeps_idle (de_congestion E)" and "idle d" and "only_reads E r"
  shows "\<exists>d'. daemon_step E r d = Normal d' \<and> idle d' \<and> g_running d' = g_running d"
proof (cases r)
  case (Timeout now now' now_ms reading)
  obtain m where m: "flow_doPeriodicTask (de_flow E) now now' (flow_manager d) = Normal m"
      "m_active_flows m = []" "m_flow_stats m = []" "flow_io m = []" "transport_config_ok m"
    using flow_periodic_idle [of "flow_manager d"] assms(2) unfolding idle_def by blast
  obtain k where k: "congestion_doPeriodicTask (de_congestion E) reading now_ms (congestion_manager d) = Normal k"
      "m_interface_congestion k = []" "m_congestion_stats k = []" "congestion_io k = []"
    using congestion_periodic_idle [OF assms(1), of "congestion_manager d"] assms(2) unfolding idle_def by blast
  from m k show ?thesis
    by (simp add: daemon_step_def Timeout on_flow_def on_congestion_def idle_def)
qed (use assms in \<open>simp_all add: daemon_step_def only_reads_def on_flow_def on_congestion_def\<close>)

lemma daemon_stopped: "\<not> g_running d \<Longrightarrow> daemon_main E es d = Exited 0"
proof (induction es arbitrary: d)
  case (Cons e es)
  then show ?case by (cases e) simp_all
qed simp

lemma daemon_step_flow_inv:
  assumes "\<And>m s. flow_inv (de_flow E) s \<Longrightarrow> out_all (flow_inv (de_flow E)) (readData_flow E m s)"
    and "flow_inv (de_flow E) (flow_manager d)" and "daemon_step E r d = Normal d'"
  shows "flow_inv (de_flow E) (flow_manager d')"
proof -
  have keep: "flow_manager t' = flow_manager t" if "on_congestion f t = Normal t'" for f t t'
    using that by (cases "f (congestion_manager t)") (auto simp: on_congestion_def)
  have flow: "flow_inv (de_flow E) (flow_manager t')"
    if "on_flow f t = Normal t'" "out_all (flow_inv (de_flow E)) (f (flow_manager t))" for f t t'
    using that by (cases "f (flow_manager t)") (auto simp: on_flow_def)
  show ?thesis
  proof (cases r)
    case (Object_flow m)
    with assms flow [of "readData_flow E m" d d'] show ?thesis by (simp add: daemon_step_def)
  next
    case (Object_congestion m)
    with assms keep [of "readData_congestion E m" d d'] show ?thesis by (simp add: daemon_step_def)
  next
    case (Timeout now now' now_ms reading)
    with assms(3) obtain d1 where 1: "on_flow (flow_doPeriodicTask (de_flow E) now now') d = Normal d1"
      and 2: "on_congestion (congestion_doPeriodicTask (de_congestion E) reading now_ms) d1 = Normal d'"
      by (auto simp: daemon_step_def out_bind_Normal_iff)
    show ?thesis
      using flow [OF 1 flow_doPeriodicTask_inv [OF assms(2)]] keep [OF 2] by simp
  next
    case Select_other
    with assms show ?thesis by (simp add: daemon_step_def)
  qed
qed

section \<open>An example\<close>

definition daemon_ex_env :: "(32, 64, 32, 64, int \<times> int \<times> 8 word list) daemon_env" where
  "daemon_ex_env =
     \<lparr>de_flow = flow_ex_env, de_congestion = congestion_ex_env,
      readData_flow = (\<lambda>(now, now', p). processIncomingPacket now now' p (length p)), readData_congestion = (\<lambda>_. Normal)\<rparr>"

definition daemon_ex :: "(32, 64, 32, 64) daemon" where
  "daemon_ex = daemon_start\<lparr>flow_manager := flow_ex\<rparr>"

section \<open>Properties\<close>

text \<open>
  As long as \<open>readData\<close> only reads, the daemon does nothing but tick: over any
  sequence of readable managers, timeouts, other returns of \<open>select\<close> and signals it neither
  crashes nor exits with an error, has no flow, publishes nothing and keeps a valid
  configuration; it ends, with code 0, exactly when it was signalled.
\<close>

theorem daemon_idle:
  assumes "update_keeps_idle (de_congestion E)"
    and "\<And>r. Select_returned r \<in> set es \<Longrightarrow> only_reads E r"
  shows "if Signalled \<in> set es then daemon_main E es daemon_start = Exited 0
    else \<exists>d. daemon_main E es daemon_start = Running d \<and> idle d"
proof -
  have "if Signalled \<in> set es then daemon_main E es d = Exited 0
    else \<exists>d'. daemon_main E es d = Running d' \<and> idle d'" if "idle d" and "g_running d" for d
    using assms(2) that
  proof (induction es arbitrary: d)
    case Nil
    then show ?case by simp
  next
    case (Cons e es)
    show ?case
    proof (cases e)
      case Signalled
      then show ?thesis by (simp add: daemon_stopped)
    next
      case (Select_returned r)
      with Cons.prems(1) have "only_reads E r" by simp
      then obtain d' where "daemon_step E r d = Normal d'" "idle d'" "g_running d'"
        using daemon_step_idle [OF assms(1) Cons.prems(2)] Cons.prems(3) by auto
      with Cons.IH [of d'] Cons.prems Select_returned show ?thesis by simp
    qed
  qed
  from this [OF idle_start] show ?thesis by (simp add: daemon_start_def)
qed

theorem daemon_idle_witness:
  "daemon_main daemon_ex_env [Select_returned (Timeout 60 60 6000 (\<lambda>_. (0, 0))),
     Select_returned (Object_congestion (0, 0, [])), Select_returned Select_other, Signalled] daemon_start = Exited 0"
proof -
  let ?es = "[Select_returned (Timeout 60 60 6000 (\<lambda>_. (0, 0))),
     Select_returned (Object_congestion (0, 0, [])), Select_returned Select_other, Signalled] :: (int \<times> int \<times> 8 word list) daemon_event list"
  have "update_keeps_idle (de_congestion daemon_ex_env)"
    by (simp add: update_keeps_idle_def daemon_ex_env_def congestion_ex_env_def)
  moreover have "only_reads daemon_ex_env r" if "Select_returned r \<in> set ?es" for r
    using that by (auto simp: only_reads_def daemon_ex_env_def)
  ultimately have "if Signalled \<in> set ?es then daemon_main daemon_ex_env ?es daemon_start = Exited 0
      else \<exists>d. daemon_main daemon_ex_env ?es daemon_start = Running d \<and> idle d"
    by (rule daemon_idle)
  moreover have "Signalled \<in> set ?es" by simp
  ultimately show ?thesis by (simp only: if_True)
qed

text \<open>
  The daemon keeps the invariant of the flow manager as long as \<open>readData\<close> does,
  whatever the order of its events; a signal ends the loop with code 0 whatever follows.
\<close>

theorem daemon_flow_invariant:
  assumes "\<And>m s. flow_inv (de_flow E) s \<Longrightarrow> out_all (flow_inv (de_flow E)) (readData_flow E m s)"
    and "flow_inv (de_flow E) (flow_manager d0)" and "daemon_main E es d0 = Running d"
  shows "flow_inv (de_flow E) (flow_manager d) \<and> daemon_main E (Signalled # fs) d = Exited 0"
proof -
  have "flow_inv (de_flow E) (flow_manager d)"
    using assms(2,3)
  proof (induction es arbitrary: d0)
    case Nil
    then show ?case by (simp split: if_splits)
  next
    case (Cons e es)
    show ?case
    proof (cases e)
      case Signalled
      with Cons.prems(2) show ?thesis by (simp add: daemon_stopped)
    next
      case (Select_returned r)
      with Cons.prems(2) obtain d' where "daemon_step E r d0 = Normal d'" "daemon_main E es d' = Running d"
        by (cases "daemon_step E r d0") (auto split: if_splits)
      with Cons.IH [of d'] daemon_step_flow_inv [OF assms(1) Cons.prems(1)] show ?thesis by simp
    qed
  qed
  then show ?thesis by (simp add: daemon_stopped)
qed

theorem daemon_flow_invariant_witness:
  "flow_inv (de_flow daemon_ex_env) (flow_manager daemon_ex) \<and>
   daemon_main daemon_ex_env [Signalled, Select_returned (Object_flow (0, 0, []))] daemon_ex = Exited 0"
proof (rule daemon_flow_invariant [where ?d0.0 = daemon_ex and es = "[Select_returned (Object_flow (0, 0, []))]"])
  show "flow_inv (de_flow daemon_ex_env) (flow_manager daemon_ex)"
    using flow_reachable_flow_inv [OF flow_ex_reachable] by (simp add: daemon_ex_env_def daemon_ex_def)
  show "daemon_main daemon_ex_env [Select_returned (Object_flow (0, 0, []))] daemon_ex = Running daemon_ex"
    by (simp add: daemon_step_def on_flow_def daemon_ex_env_def daemon_ex_def daemon_start_def
        processIncomingPacket_def parsePacketFlowId_def sizeof_iphdr_def zero_flow_id_def)
  show "out_all (flow_inv (de_flow daemon_ex_env)) (readData_flow daemon_ex_env m s)"
    if "flow_inv (de_flow daemon_ex_env) s" for m and s :: "(32, 64, 32) flow_state"
    using that by (cases m) (simp add: daemon_ex_env_def processIncomingPacket_inv)
qed

end
