(* ===== verification/Dual_Stack.thy ===== *)
theory Dual_Stack
  imports Flow_Packet
begin

text \<open>
  \<open>ue_transport_v4v6.h\<close> and the connection pool of \<open>ue_rdma.c\<close>: addresses of either IP
  version, their conversion to and from socket addresses, the ephemeral connection pools and
  the initialisation of multipath state. The kernel clock macros, the allocation, path-query
  and posting functions, and the constants are not in the repository: they are parameters.
\<close>

section \<open>Addresses\<close>

text \<open>
  \<open>ue_ip_addr_t\<close> is a union of 16 bytes: \<open>v4.addr\<close> is the first four of them (as they lie
  in memory, in network order), \<open>v4.padding\<close> the other twelve.
\<close>

type_synonym ue_ip_addr = "8 word list"

definition addr_wf :: "ue_ip_addr \<Rightarrow> bool" where
  "addr_wf a \<longleftrightarrow> length a = 16"

definition v4_addr :: "ue_ip_addr \<Rightarrow> 8 word list" where
  "v4_addr a = take 4 a"

datatype address_family = AF_INET | AF_INET6 | AF_other nat

definition ue_addr_family :: "ue_ip_addr \<Rightarrow> 8 word \<Rightarrow> address_family" where
  "ue_addr_family addr ipv = (if ipv = 4 then AF_INET else AF_INET6)"

definition ue_addr_len :: "8 word \<Rightarrow> nat" where
  "ue_addr_len ipv = (if ipv = 4 then 4 else 16)"

definition ue_addr_copy :: "ue_ip_addr \<Rightarrow> ue_ip_addr \<Rightarrow> 8 word \<Rightarrow> ue_ip_addr" where
  "ue_addr_copy dst src ipv =
     (if ipv = 4 then v4_addr src @ replicate 12 0 else take 16 src)"

text \<open>\<open>memcmp\<close>: the sign of the first difference; C specifies no more than the sign.\<close>

fun memcmp :: "8 word list \<Rightarrow> 8 word list \<Rightarrow> int" where
  "memcmp (a # as) (b # bs) = (if a = b then memcmp as bs else if a < b then - 1 else 1)"
| "memcmp _ _ = 0"

definition ue_addr_compare :: "ue_ip_addr \<Rightarrow> ue_ip_addr \<Rightarrow> 8 word \<Rightarrow> int" where
  "ue_addr_compare a b ipv =
     (if ipv = 4 then (if v4_addr a = v4_addr b then 0 else 1)
      else memcmp (take 16 a) (take 16 b))"

section \<open>Socket addresses\<close>

text \<open>The socket address of a family, with the port's two bytes in network order.\<close>

datatype sockaddr =
    Sockaddr_in "8 word list" "8 word list" \<comment> \<open>\<open>sin_addr\<close>, \<open>sin_port\<close>\<close>
  | Sockaddr_in6 "8 word list" "8 word list"
  | Sockaddr_other nat

text \<open>The return code with the address and version; an error leaves both as they were.\<close>

fun ue_sockaddr_to_addr :: "sockaddr \<Rightarrow> ue_ip_addr \<times> 8 word \<Rightarrow> int \<times> ue_ip_addr \<times> 8 word" where
  "ue_sockaddr_to_addr (Sockaddr_in sin_addr sin_port) out = (0, sin_addr @ replicate 12 0, 4)"
| "ue_sockaddr_to_addr (Sockaddr_in6 sin6_addr sin6_port) out = (0, sin6_addr, 6)"
| "ue_sockaddr_to_addr (Sockaddr_other family) out = (- 1, out)"

definition sizeof_sockaddr_in :: int where "sizeof_sockaddr_in = 16"
definition sizeof_sockaddr_in6 :: int where "sizeof_sockaddr_in6 = 28"

text \<open>The storage is cleared first: for an unknown version it is left with family 0.\<close>

definition ue_addr_to_sockaddr :: "ue_ip_addr \<Rightarrow> 8 word \<Rightarrow> 16 word \<Rightarrow> int \<times> sockaddr" where
  "ue_addr_to_sockaddr addr ipv port =
     (if ipv = 4 then (sizeof_sockaddr_in, Sockaddr_in (v4_addr addr) (bytes16 port))
      else if ipv = 6 then (sizeof_sockaddr_in6, Sockaddr_in6 (take 16 addr) (bytes16 port))
      else (- 1, Sockaddr_other 0))"

section \<open>Connection pools\<close>

record ue_connection_v2 =
  local_conn_id :: "32 word"
  remote_conn_id :: "32 word"
  c_local_addr :: ue_ip_addr
  c_remote_addr :: ue_ip_addr
  c_local_port :: "16 word"
  c_remote_port :: "16 word"
  c_ip_version :: "8 word"
  c_state :: "32 word"
  c_last_activity :: "64 word"

text \<open>
  \<open>time_before(jiffies, conn->last_activity + UE_CONN_TIMEOUT)\<close>; the macro and the timeout
  are parameters. The result is the position of the connection in the pool.
\<close>

record pool_env =
  time_before :: "64 word \<Rightarrow> 64 word \<Rightarrow> bool"
  UE_CONN_TIMEOUT :: "64 word"

definition matches_v2 :: "ue_ip_addr \<times> 16 word \<times> 8 word \<Rightarrow> ue_connection_v2 \<Rightarrow> bool" where
  "matches_v2 k conn \<longleftrightarrow>
     (case k of (remote_addr, remote_port, ipv) \<Rightarrow>
        c_ip_version conn = ipv \<and> c_remote_port conn = remote_port \<and>
        ue_addr_compare (c_remote_addr conn) remote_addr ipv = 0)"

fun ue_get_ephemeral_conn_v2 ::
  "pool_env \<Rightarrow> 64 word \<Rightarrow> ue_ip_addr \<times> 16 word \<times> 8 word \<Rightarrow> ue_connection_v2 list \<Rightarrow>
   nat option \<times> ue_connection_v2 list" where
  "ue_get_ephemeral_conn_v2 E jiffies k [] = (None, [])"
| "ue_get_ephemeral_conn_v2 E jiffies k (conn # active_conns) =
     (if matches_v2 k conn \<and> time_before E jiffies (c_last_activity conn + UE_CONN_TIMEOUT E)
      then (Some 0, conn\<lparr>c_last_activity := jiffies\<rparr> # active_conns)
      else let (r, rest) = ue_get_ephemeral_conn_v2 E jiffies k active_conns
           in (map_option Suc r, conn # rest))"

text \<open>The pool of \<open>ue_rdma.c\<close>, keyed by a 64-bit remote address.\<close>

record ue_connection =
  local_id :: "32 word"
  remote_id :: "32 word"
  local_addr :: "64 word"
  remote_addr :: "64 word"
  conn_state :: "32 word"
  last_activity :: "64 word"

fun ue_get_ephemeral_conn ::
  "pool_env \<Rightarrow> 64 word \<Rightarrow> 64 word \<Rightarrow> ue_connection list \<Rightarrow> nat option \<times> ue_connection list" where
  "ue_get_ephemeral_conn E jiffies raddr [] = (None, [])"
| "ue_get_ephemeral_conn E jiffies raddr (conn # active_conns) =
     (if remote_addr conn = raddr \<and> time_before E jiffies (last_activity conn + UE_CONN_TIMEOUT E)
      then (Some 0, conn\<lparr>last_activity := jiffies\<rparr> # active_conns)
      else let (r, rest) = ue_get_ephemeral_conn E jiffies raddr active_conns
           in (map_option Suc r, conn # rest))"

section \<open>Remote writes\<close>

text \<open>
  Creating a temporary connection and posting a write are not in the repository: parameters of
  either version of the code. A creator gets the endpoint (here its pool, which it may change)
  and the peer, and may fail; a posting function gets the connection, the buffer, its length
  and the remote key, and in the older code the remote address too. The older code does not
  check that the connection is non-null.
\<close>

datatype 'c conn_ref = Pooled nat | Temporary 'c | Null_conn

definition ue_rdma_write_immediate_v2 ::
  "pool_env \<Rightarrow> 64 word \<Rightarrow>
   (ue_ip_addr \<times> 16 word \<times> 8 word \<Rightarrow> ue_connection_v2 list \<Rightarrow> 'c option \<times> ue_connection_v2 list) \<Rightarrow>
   ('c conn_ref \<Rightarrow> 64 word \<Rightarrow> 64 word \<Rightarrow> 32 word \<Rightarrow> ue_connection_v2 list \<Rightarrow> int \<times> ue_connection_v2 list) \<Rightarrow> int \<Rightarrow>
   64 word \<Rightarrow> 64 word \<Rightarrow> ue_ip_addr \<times> 16 word \<times> 8 word \<Rightarrow> 32 word \<Rightarrow> ue_connection_v2 list \<Rightarrow>
   int \<times> ue_connection_v2 list" where
  "ue_rdma_write_immediate_v2 E jiffies create post ENOMEM buf len k rkey pool =
     (case ue_get_ephemeral_conn_v2 E jiffies k pool of
        (Some i, pool') \<Rightarrow> post (Pooled i) buf len rkey pool'
      | (None, pool') \<Rightarrow>
          (case create k pool' of
             (None, pool'') \<Rightarrow> (- ENOMEM, pool'')
           | (Some c, pool'') \<Rightarrow> post (Temporary c) buf len rkey pool''))"

definition ue_rdma_write_immediate ::
  "pool_env \<Rightarrow> 64 word \<Rightarrow> (64 word \<Rightarrow> ue_connection list \<Rightarrow> 'c option \<times> ue_connection list) \<Rightarrow>
   ('c conn_ref \<Rightarrow> 64 word \<Rightarrow> 64 word \<Rightarrow> 64 word \<Rightarrow> 32 word \<Rightarrow> ue_connection list \<Rightarrow> int \<times> ue_connection list) \<Rightarrow>
   64 word \<Rightarrow> 64 word \<Rightarrow> 64 word \<Rightarrow> 32 word \<Rightarrow> ue_connection list \<Rightarrow> int \<times> ue_connection list" where
  "ue_rdma_write_immediate E jiffies create post buf len raddr rkey pool =
     (case ue_get_ephemeral_conn E jiffies raddr pool of
        (Some i, pool') \<Rightarrow> post (Pooled i) buf len raddr rkey pool'
      | (None, pool') \<Rightarrow>
          (case create raddr pool' of
             (None, pool'') \<Rightarrow> post Null_conn buf len raddr rkey pool''
           | (Some c, pool'') \<Rightarrow> post (Temporary c) buf len raddr rkey pool''))"

section \<open>Multipath\<close>

record path_stat =
  next_hop :: ue_ip_addr
  ps_weight :: "16 word"
  ps_packets_sent :: "32 word"
  ps_congestion_level :: "32 word"
  ps_rtt :: "32 word"

record ue_multipath_v2 =
  num_paths :: "8 word"
  entropy_seed :: "32 word"
  mp_ip_version :: "8 word"
  path_stats :: "path_stat list" \<comment> \<open>\<open>UE_MAX_PATHS\<close> elements\<close>

definition clear_path :: "path_stat \<Rightarrow> path_stat" where
  "clear_path p = p\<lparr>ps_packets_sent := 0, ps_congestion_level := 0, ps_rtt := 0\<rparr>"

text \<open>The loop over the paths from \<open>i\<close> on, clearing each; a store past the array is undefined.\<close>

function clear_paths :: "('a \<Rightarrow> 'a) \<Rightarrow> nat \<Rightarrow> nat \<Rightarrow> 'a list \<Rightarrow> ub + 'a list" where
  "clear_paths clear i n ps =
     (if i < n then
        (if i < length ps then clear_paths clear (i + 1) n (ps[i := clear (ps ! i)])
         else Inl Out_of_bounds)
      else Inr ps)"
  by pat_completeness auto
termination
  by (relation "measure (\<lambda>(clear, i, n, ps). n - i)") auto

declare clear_paths.simps [simp del]

definition ue_setup_multipath_v2 ::
  "(8 word list \<Rightarrow> int) \<Rightarrow> (8 word list \<Rightarrow> int) \<Rightarrow> 32 word \<Rightarrow> ue_ip_addr \<Rightarrow> 8 word \<Rightarrow> ue_multipath_v2 \<Rightarrow>
   ub + ue_multipath_v2" where
  "ue_setup_multipath_v2 query_v4 query_v6 r dest ipv mp =
     (let n = (if ipv = 4 then word_of_int (query_v4 (v4_addr dest))
               else word_of_int (query_v6 dest))
      in case clear_paths clear_path 0 (unat n) (path_stats mp) of
           Inl u \<Rightarrow> Inl u
         | Inr ps \<Rightarrow> Inr (mp\<lparr>mp_ip_version := ipv, num_paths := n, entropy_seed := r,
                             path_stats := ps\<rparr>))"

section \<open>Endpoints\<close>

datatype addr_format = FI_SOCKADDR_IN | FI_SOCKADDR_IN6 | FI_SOCKADDR | FI_other nat

datatype ip_versions = UE_IPV4_ONLY | UE_IPV6_ONLY | UE_IPV4_AND_IPV6

datatype fi_error = FI_ENOMEM | FI_EINVAL

record ue_endpoint =
  supported_ip_versions :: ip_versions
  active_conns :: "ue_connection_v2 list"
  max_conns :: nat
  ep_context :: nat

text \<open>\<open>allocated\<close> is whether \<open>calloc\<close> succeeded.\<close>

definition ue_endpoint_create_v2 :: "bool \<Rightarrow> nat \<Rightarrow> addr_format \<Rightarrow> nat \<Rightarrow> fi_error + ue_endpoint" where
  "ue_endpoint_create_v2 allocated UE_MAX_CONNECTIONS fmt ctxt =
     (if \<not> allocated then Inl FI_ENOMEM
      else let ep = (\<lambda>v. \<lparr>supported_ip_versions = v, active_conns = [],
                          max_conns = UE_MAX_CONNECTIONS, ep_context = ctxt\<rparr>)
           in case fmt of
                FI_SOCKADDR_IN \<Rightarrow> Inr (ep UE_IPV4_ONLY)
              | FI_SOCKADDR_IN6 \<Rightarrow> Inr (ep UE_IPV6_ONLY)
              | FI_SOCKADDR \<Rightarrow> Inr (ep UE_IPV4_AND_IPV6)
              | FI_other _ \<Rightarrow> Inl FI_EINVAL)"

section \<open>Looking up a pool\<close>

text \<open>
  Both pools are searched in the same way: the first usable connection is touched and
  returned, the others stay as they are.
\<close>

locale conn_pool =
  fixes lookup :: "64 word \<Rightarrow> 'k \<Rightarrow> 'c list \<Rightarrow> nat option \<times> 'c list"
    and usable :: "64 word \<Rightarrow> 'k \<Rightarrow> 'c \<Rightarrow> bool"
    and touch :: "64 word \<Rightarrow> 'c \<Rightarrow> 'c"
  assumes lookup_Nil: "lookup j k [] = (None, [])"
    and lookup_Cons: "lookup j k (c # cs) =
      (if usable j k c then (Some 0, touch j c # cs)
       else (map_option Suc (fst (lookup j k cs)), c # snd (lookup j k cs)))"
begin

lemma lookup_None: "fst (lookup j k cs) = None \<longleftrightarrow> (\<forall>c \<in> set cs. \<not> usable j k c)"
  by (induction cs) (auto simp: lookup_Nil lookup_Cons)

lemma lookup_None_pool: "fst (lookup j k cs) = None \<Longrightarrow> snd (lookup j k cs) = cs"
  by (induction cs) (auto simp: lookup_Nil lookup_Cons split: if_splits)

lemma lookup_Some:
  "fst (lookup j k cs) = Some i \<Longrightarrow>
   i < length cs \<and> usable j k (cs ! i) \<and> (\<forall>m < i. \<not> usable j k (cs ! m)) \<and>
   snd (lookup j k cs) = cs[i := touch j (cs ! i)]"
proof (induction cs arbitrary: i)
  case Nil
  then show ?case by (simp add: lookup_Nil)
next
  case (Cons c cs)
  show ?case
  proof (cases "usable j k c")
    case True
    with Cons.prems show ?thesis by (simp add: lookup_Cons)
  next
    case False
    with Cons.prems obtain i' where i: "i = Suc i'" and i': "fst (lookup j k cs) = Some i'"
      by (auto simp: lookup_Cons)
    from Cons.IH [OF i'] False show ?thesis
      by (auto simp: lookup_Cons i nth_Cons split: nat.split)
  qed
qed

text \<open>While the touched connection stays usable, a lookup goes on finding one, no later in the pool.\<close>

lemma lookup_again:
  assumes "fst (lookup j k cs) = Some i" and "usable j' k (touch j (cs ! i))"
  shows "\<exists>i' \<le> i. fst (lookup j' k (snd (lookup j k cs))) = Some i'"
proof -
  define ds where "ds = cs[i := touch j (cs ! i)]"
  have i: "i < length cs" and snd_ds: "snd (lookup j k cs) = ds"
    using lookup_Some [OF assms(1)] by (simp_all add: ds_def)
  then have "ds ! i \<in> set ds" and use: "usable j' k (ds ! i)"
    using assms(2) by (simp_all add: ds_def set_update_memI)
  then have "fst (lookup j' k ds) \<noteq> None"
    unfolding lookup_None by blast
  then obtain i' where i': "fst (lookup j' k ds) = Some i'" by blast
  with lookup_Some [OF i'] use have "i' \<le> i" by (meson not_le)
  with i' show ?thesis by (auto simp: snd_ds)
qed

end

definition usable_v2 :: "pool_env \<Rightarrow> 64 word \<Rightarrow> ue_ip_addr \<times> 16 word \<times> 8 word \<Rightarrow> ue_connection_v2 \<Rightarrow> bool" where
  "usable_v2 E j k c \<longleftrightarrow> matches_v2 k c \<and> time_before E j (c_last_activity c + UE_CONN_TIMEOUT E)"

definition usable_v1 :: "pool_env \<Rightarrow> 64 word \<Rightarrow> 64 word \<Rightarrow> ue_connection \<Rightarrow> bool" where
  "usable_v1 E j k c \<longleftrightarrow> remote_addr c = k \<and> time_before E j (last_activity c + UE_CONN_TIMEOUT E)"

interpretation pool_v2: conn_pool "ue_get_ephemeral_conn_v2 E" "usable_v2 E" "\<lambda>j c. c\<lparr>c_last_activity := j\<rparr>" for E
  by unfold_locales (simp_all add: usable_v2_def split_beta Let_def)

interpretation pool_v1: conn_pool "ue_get_ephemeral_conn E" "usable_v1 E" "\<lambda>j c. c\<lparr>last_activity := j\<rparr>" for E
  by unfold_locales (simp_all add: usable_v1_def split_beta Let_def)

section \<open>The clock\<close>

text \<open>
  The documented meaning of the kernel's \<open>time_before\<close>: the sign of the difference, so that
  it survives the wrap-around of the clock.
\<close>

locale jiffies_clock =
  fixes before :: "64 word \<Rightarrow> 64 word \<Rightarrow> bool"
  assumes before_signed: "before a b \<longleftrightarrow> sint (a - b) < 0"
begin

lemma signed_difference:
  fixes a t :: "64 word"
  assumes "unat a < 2 ^ 63" and "unat t \<le> 2 ^ 63"
  shows "sint (a - t) < 0 \<longleftrightarrow> unat a < unat t"
proof -
  have "int (unat a) < int (2 ^ 63)" and "int (unat t) \<le> int (2 ^ 63)"
    using assms by (simp_all only: of_nat_less_iff of_nat_le_iff)
  then have a: "uint a < 2 ^ 63" "0 \<le> uint a" and t: "uint t \<le> 2 ^ 63" "0 \<le> uint t"
    by simp_all
  have "sint (word_of_int k :: 64 word) = signed_take_bit 63 k" for k
    by (simp add: signed_of_int)
  from this [of "uint a - uint t"] have "sint (a - t) = signed_take_bit 63 (uint a - uint t)"
    by simp
  also have "\<dots> = uint a - uint t"
    by (rule signed_take_bit_int_eq_self) (use a t in linarith)+
  finally have "sint (a - t) < 0 \<longleftrightarrow> int (unat a) < int (unat t)" by simp
  then show ?thesis by (simp only: of_nat_less_iff)
qed

lemma before_deadline:
  assumes "unat (now - since) < 2 ^ 63" and "unat timeout \<le> 2 ^ 63"
  shows "before now (since + timeout) \<longleftrightarrow> unat (now - since) < unat timeout"
  using signed_difference [OF assms] by (simp only: before_signed diff_diff_eq)

end

definition signed_before :: "64 word \<Rightarrow> 64 word \<Rightarrow> bool" where
  "signed_before a b \<longleftrightarrow> sint (a - b) < 0"

interpretation jiffies: jiffies_clock signed_before
  by unfold_locales (simp add: signed_before_def)

section \<open>Comparing addresses\<close>

lemma memcmp_zero: "length as = length bs \<Longrightarrow> memcmp as bs = 0 \<longleftrightarrow> as = bs"
  by (induction as bs rule: memcmp.induct) auto

lemma memcmp_antisym: "length as = length bs \<Longrightarrow> memcmp bs as = - memcmp as bs"
  by (induction as bs rule: memcmp.induct) (auto simp: not_less)

section \<open>Clearing paths\<close>

lemma clear_paths_in_bounds:
  "n \<le> length ps \<Longrightarrow> clear_paths clear i n ps =
     Inr (map (\<lambda>j. if i \<le> j \<and> j < n then clear (ps ! j) else ps ! j) [0..<length ps])"
proof (induction clear i n ps rule: clear_paths.induct)
  case (1 clear i n ps)
  show ?case
  proof (cases "i < n")
    case True
    with "1.prems" have "i < length ps" by simp
    with 1 True show ?thesis
      by (subst clear_paths.simps) (auto simp: nth_list_update intro!: nth_equalityI)
  next
    case False
    then show ?thesis
      by (subst clear_paths.simps) (auto intro!: nth_equalityI)
  qed
qed

lemma clear_paths_out: "i \<le> length ps \<Longrightarrow> length ps < n \<Longrightarrow> clear_paths clear i n ps = Inl Out_of_bounds"
proof (induction clear i n ps rule: clear_paths.induct)
  case (1 clear i n ps)
  then show ?case by (subst clear_paths.simps) auto
qed

section \<open>Examples\<close>

definition pool_ex_env :: pool_env where
  "pool_ex_env = \<lparr>time_before = signed_before, UE_CONN_TIMEOUT = 5000\<rparr>"

definition conn_ex :: "64 word \<Rightarrow> ue_connection_v2" where
  "conn_ex t =
     \<lparr>local_conn_id = 1, remote_conn_id = 2, c_local_addr = replicate 16 0, c_remote_addr = replicate 16 7,
      c_local_port = 1, c_remote_port = 4793, c_ip_version = 6, c_state = 0, c_last_activity = t\<rparr>"

definition conn_ex_key :: "ue_ip_addr \<times> 16 word \<times> 8 word" where
  "conn_ex_key = (replicate 16 7, 4793, 6)"

lemma conn_ex_matches [simp]: "matches_v2 conn_ex_key (conn_ex t)"
  by (simp add: matches_v2_def conn_ex_key_def conn_ex_def ue_addr_compare_def memcmp_zero)

section \<open>Properties\<close>

text \<open>
  Property C26: an address survives the round trip through a socket address: the version and
  the port are kept, and the address read back compares equal to the original one and is
  its canonical copy.
\<close>

theorem sockaddr_roundtrip:
  assumes "addr_wf a" and "ipv = 4 \<or> ipv = 6"
    and "ue_addr_to_sockaddr a ipv port = (len, sa)" and "ue_sockaddr_to_addr sa out = (r, b, ipv')"
  shows "r = 0 \<and> ipv' = ipv \<and> b = ue_addr_copy d a ipv \<and> addr_wf b \<and> ue_addr_compare b a ipv = 0 \<and>
    (case sa of Sockaddr_in _ p \<Rightarrow> be16 (p ! 0) (p ! 1) = port
              | Sockaddr_in6 _ p \<Rightarrow> be16 (p ! 0) (p ! 1) = port
              | Sockaddr_other _ \<Rightarrow> False)"
  using assms
  by (auto simp: ue_addr_to_sockaddr_def ue_addr_copy_def ue_addr_compare_def addr_wf_def v4_addr_def
      memcmp_zero bytes16_def be16_bytes split: if_splits)

theorem sockaddr_roundtrip_witness:
  "ue_addr_compare (ue_addr_copy [] ([192, 168, 0, 1] @ replicate 12 9) 4) ([192, 168, 0, 1] @ replicate 12 9) 4 = 0"
proof -
  have "addr_wf ([192, 168, 0, 1] @ replicate 12 9)" by (simp add: addr_wf_def)
  from sockaddr_roundtrip [OF this, of 4 4793 16 "Sockaddr_in [192, 168, 0, 1] (bytes16 4793)" "([], 0)" 0
      "[192, 168, 0, 1] @ replicate 12 0" 4 "[]"]
  show ?thesis
    by (simp add: ue_addr_to_sockaddr_def sizeof_sockaddr_in_def v4_addr_def) metis
qed

text \<open>
  Comparison decides equality of the canonical copies for every version; but
  only for IPv6 is its sign an order: for IPv4 it is symmetric, so unequal addresses are
  each "greater" than the other.
\<close>

theorem addr_compare_exact:
  assumes "addr_wf a" and "addr_wf b"
  shows "(ue_addr_compare a b ipv = 0 \<longleftrightarrow> ue_addr_copy d a ipv = ue_addr_copy d b ipv) \<and>
    (ipv \<noteq> 4 \<longrightarrow> ue_addr_compare b a ipv = - ue_addr_compare a b ipv) \<and>
    ue_addr_compare b a 4 = ue_addr_compare a b 4"
  using assms memcmp_zero [of a b] memcmp_antisym [of a b]
  by (auto simp: ue_addr_compare_def ue_addr_copy_def addr_wf_def v4_addr_def)

theorem addr_compare_exact_witness:
  "ue_addr_compare (1 # replicate 15 0) (2 # replicate 15 0) 6 =
     - ue_addr_compare (2 # replicate 15 0) (1 # replicate 15 0) 6"
  using addr_compare_exact [of "2 # replicate 15 0" "1 # replicate 15 0" 6] by (simp add: addr_wf_def)

text \<open>
  Property C21: under the documented meaning of \<open>time_before\<close> and ages below \<open>2^63\<close> ticks, a
  lookup finds a connection exactly when one of the pool matches and is younger than the
  timeout; it returns the first such, refreshes it, and changes nothing else.
\<close>

theorem pool_lookup_exact:
  assumes "jiffies_clock (time_before E)" and "unat (UE_CONN_TIMEOUT E) \<le> 2 ^ 63"
    and "\<forall>c \<in> set pool. unat (now - c_last_activity c) < 2 ^ 63"
    and "ue_get_ephemeral_conn_v2 E now k pool = (r, pool')"
  shows "case r of
      None \<Rightarrow> pool' = pool \<and>
        (\<forall>c \<in> set pool. matches_v2 k c \<longrightarrow> unat (UE_CONN_TIMEOUT E) \<le> unat (now - c_last_activity c))
    | Some i \<Rightarrow> i < length pool \<and> matches_v2 k (pool ! i) \<and>
        unat (now - c_last_activity (pool ! i)) < unat (UE_CONN_TIMEOUT E) \<and>
        (\<forall>m < i. \<not> (matches_v2 k (pool ! m) \<and>
           unat (now - c_last_activity (pool ! m)) < unat (UE_CONN_TIMEOUT E))) \<and>
        pool' = pool[i := (pool ! i)\<lparr>c_last_activity := now\<rparr>]"
proof -
  have usable: "usable_v2 E now k c \<longleftrightarrow>
      matches_v2 k c \<and> unat (now - c_last_activity c) < unat (UE_CONN_TIMEOUT E)" if "c \<in> set pool" for c
    using assms(3) that jiffies_clock.before_deadline [OF assms(1) _ assms(2), of now "c_last_activity c"]
    by (simp add: usable_v2_def)
  show ?thesis
  proof (cases r)
    case None
    with assms(4) have "fst (ue_get_ephemeral_conn_v2 E now k pool) = None" by simp
    with pool_v2.lookup_None [of E now k pool] pool_v2.lookup_None_pool [OF this] None assms(4) usable
    show ?thesis by (auto simp: not_less)
  next
    case (Some i)
    with assms(4) have "fst (ue_get_ephemeral_conn_v2 E now k pool) = Some i" by simp
    note found = pool_v2.lookup_Some [OF this]
    then have "\<forall>m < i. \<not> (matches_v2 k (pool ! m) \<and>
           unat (now - c_last_activity (pool ! m)) < unat (UE_CONN_TIMEOUT E))"
      using usable [OF nth_mem] by (meson order.strict_trans)
    with found usable [OF nth_mem, of i] Some assms(4) show ?thesis by simp
  qed
qed

theorem pool_lookup_exact_witness:
  "ue_get_ephemeral_conn_v2 pool_ex_env 10000 conn_ex_key [conn_ex 5000, conn_ex 5001, conn_ex 9999] =
     (Some 1, [conn_ex 5000, conn_ex 10000, conn_ex 9999]) \<and>
   matches_v2 conn_ex_key (conn_ex 5001)"
proof -
  have run: "ue_get_ephemeral_conn_v2 pool_ex_env 10000 conn_ex_key [conn_ex 5000, conn_ex 5001, conn_ex 9999] =
     (Some 1, [conn_ex 5000, conn_ex 10000, conn_ex 9999])"
    by (simp add: pool_ex_env_def signed_before_def) (simp add: conn_ex_def)
  have clock: "jiffies_clock (time_before pool_ex_env)"
    using jiffies.jiffies_clock_axioms by (simp add: pool_ex_env_def)
  have t: "unat (UE_CONN_TIMEOUT pool_ex_env) \<le> 2 ^ 63"
    by (simp add: pool_ex_env_def)
  have ages: "\<forall>c \<in> set [conn_ex 5000, conn_ex 5001, conn_ex 9999]. unat (10000 - c_last_activity c) < 2 ^ 63"
    by (simp add: conn_ex_def)
  show ?thesis
    using run pool_lookup_exact [OF clock t ages run] by simp
qed

text \<open>
  A connection that is used at intervals shorter than the timeout is never
  lost: after a lookup, another lookup of the same peer less than the timeout later finds
  a connection again, the same one or one in front of it.
\<close>

theorem pool_keeps_connection:
  assumes "jiffies_clock (time_before E)" and "unat (UE_CONN_TIMEOUT E) \<le> 2 ^ 63"
    and "ue_get_ephemeral_conn_v2 E now k pool = (Some i, pool')"
    and "unat (later - now) < unat (UE_CONN_TIMEOUT E)"
  shows "\<exists>i' \<le> i. fst (ue_get_ephemeral_conn_v2 E later k pool') = Some i'"
proof -
  have found: "fst (ue_get_ephemeral_conn_v2 E now k pool) = Some i" using assms(3) by simp
  have "time_before E later (now + UE_CONN_TIMEOUT E)"
    using jiffies_clock.before_deadline [OF assms(1) _ assms(2), of later now] assms(2,4) by simp
  then have "usable_v2 E later k ((pool ! i)\<lparr>c_last_activity := now\<rparr>)"
    using pool_v2.lookup_Some [OF found] by (simp add: usable_v2_def matches_v2_def split_beta)
  from pool_v2.lookup_again [OF found this] show ?thesis
    using assms(3) by simp
qed

theorem pool_keeps_connection_witness:
  "\<exists>i' \<le> 0. fst (ue_get_ephemeral_conn_v2 pool_ex_env 14999 conn_ex_key [conn_ex 10000]) = Some i'"
proof (rule pool_keeps_connection)
  show "jiffies_clock (time_before pool_ex_env)"
    using jiffies.jiffies_clock_axioms by (simp add: pool_ex_env_def)
  show "ue_get_ephemeral_conn_v2 pool_ex_env 10000 conn_ex_key [conn_ex 9000] = (Some 0, [conn_ex 10000])"
    by (simp add: pool_ex_env_def signed_before_def) (simp add: conn_ex_def)
qed (simp_all add: pool_ex_env_def)

text \<open>
  Property C38: setting up multipath takes the low 8 bits of what the path query reports for the
  number of paths. It writes past the statistics array exactly when that number exceeds the
  size of the array (so 260 reported paths are 4 and do fit an array of 8, while 9 do not);
  otherwise the counters of that many paths are zero and everything else about the paths is
  as before.
\<close>

theorem multipath_bounds:
  "ue_setup_multipath_v2 q4 q6 r dest ipv mp =
     (let n = (if ipv = 4 then word_of_int (q4 (v4_addr dest)) else word_of_int (q6 dest))
      in if length (path_stats mp) < unat n then Inl Out_of_bounds
         else Inr (mp\<lparr>mp_ip_version := ipv, num_paths := n, entropy_seed := r,
           path_stats := map (\<lambda>j. if j < unat n then clear_path (path_stats mp ! j) else path_stats mp ! j)
             [0..<length (path_stats mp)]\<rparr>))"
  by (simp add: ue_setup_multipath_v2_def Let_def clear_paths_out clear_paths_in_bounds not_less)

text \<open>
  When the pool has no connection and none can be created, the dual-stack write
  returns \<open>-ENOMEM\<close> without posting anything; the older function posts the write with the
  null connection.
\<close>

theorem write_without_connection:
  assumes "\<forall>c \<in> set pool. \<not> usable_v2 E now k c" and "create k pool = (None, pool)"
    and "\<forall>c \<in> set pool1. \<not> usable_v1 E now raddr c" and "create1 raddr pool1 = (None, pool1)"
  shows "ue_rdma_write_immediate_v2 E now create post ENOMEM buf len k rkey pool = (- ENOMEM, pool) \<and>
    ue_rdma_write_immediate E now create1 post1 buf len raddr rkey pool1 = post1 Null_conn buf len raddr rkey pool1"
proof -
  have "ue_get_ephemeral_conn_v2 E now k pool = (None, pool)"
    using pool_v2.lookup_None [of E now k pool] pool_v2.lookup_None_pool [of E now k pool] assms(1)
    by (auto intro: prod_eqI)
  moreover have "ue_get_ephemeral_conn E now raddr pool1 = (None, pool1)"
    using pool_v1.lookup_None [of E now raddr pool1] pool_v1.lookup_None_pool [of E now raddr pool1] assms(3)
    by (auto intro: prod_eqI)
  ultimately show ?thesis
    using assms(2,4) by (simp add: ue_rdma_write_immediate_v2_def ue_rdma_write_immediate_def)
qed

theorem write_without_connection_witness:
  "ue_rdma_write_immediate_v2 pool_ex_env 10000 (\<lambda>_ p. (None :: nat option, p)) (\<lambda>c b l r p. (0, p)) 12 4096 64 conn_ex_key 5
     [conn_ex 0] = (- 12, [conn_ex 0])"
  using write_without_connection [of "[conn_ex 0]" pool_ex_env 10000 conn_ex_key "\<lambda>_ p. (None :: nat option, p)" "[]" 7
      "\<lambda>_ p. (None :: nat option, p)" "\<lambda>c b l r p. (0, p)" 12 4096 64 5 "\<lambda>c b l a r p. (1, p)"]
  by (simp add: usable_v2_def pool_ex_env_def signed_before_def conn_ex_def)

end
