(* ===== verification/Wire_Headers.thy ===== *)
theory Wire_Headers
  imports Dual_Stack
begin

text \<open>
  \<open>ue_transport.h\<close> and the packet declarations of \<open>ue_transport_v4v6.h\<close>: the packed
  headers of an Ultra Ethernet packet as they lie in memory, byte by byte, and the packet
  structures built from them. Multi-byte members and bit-fields are in the host's order, so
  the host's endianness is a parameter. The IP and UDP headers are structures of the system:
  they stay byte strings of their size.
\<close>

section \<open>Members of a packed structure\<close>

text \<open>
  The contract of a type with a fixed representation in memory: the representation has the
  size of the type and determines the value, and every byte string of that size is one.
\<close>

locale packed_field =
  fixes enc :: "'a \<Rightarrow> 8 word list" and dec :: "8 word list \<Rightarrow> 'a" and sz :: nat
  assumes enc_length: "length (enc x) = sz"
    and dec_enc: "dec (enc x) = x"
    and enc_dec: "length bs = sz \<Longrightarrow> enc (dec bs) = bs"
begin

lemma enc_eq_iff: "enc x = enc y \<longleftrightarrow> x = y"
  by (metis dec_enc)

lemma enc_bij: "bij_betw enc UNIV {bs. length bs = sz}"
  by (rule bij_betw_byWitness [where f' = dec]) (auto simp: enc_length dec_enc enc_dec)

lemma dec_at: "length pre = n \<Longrightarrow> dec (take sz (drop n (pre @ enc x @ rest))) = x"
  by (simp add: enc_length dec_enc)

lemma enc_at: "n + sz \<le> length bs \<Longrightarrow> enc (dec (take sz (drop n bs))) = take sz (drop n bs)"
  by (simp add: enc_dec)

end

text \<open>The bytes of a word from the least significant one, and back.\<close>

definition le_bytes :: "nat \<Rightarrow> 'a::len word \<Rightarrow> 8 word list" where
  "le_bytes n w = map (\<lambda>i. ucast (drop_bit (8 * i) w)) [0..<n]"

fun le_word :: "8 word list \<Rightarrow> 'a::len word" where
  "le_word [] = 0"
| "le_word (b # bs) = ucast b OR push_bit 8 (le_word bs)"

definition host_bytes :: "bool \<Rightarrow> nat \<Rightarrow> 'a::len word \<Rightarrow> 8 word list" where
  "host_bytes little n w = (if little then le_bytes n w else rev (le_bytes n w))"

definition host_word :: "bool \<Rightarrow> 8 word list \<Rightarrow> 'a::len word" where
  "host_word little bs = le_word (if little then bs else rev bs)"

lemma bit_le_word:
  "bit (le_word bs :: 'a::len word) k \<longleftrightarrow>
     k < LENGTH('a) \<and> k div 8 < length bs \<and> bit (bs ! (k div 8)) (k mod 8)"
proof (induction bs arbitrary: k)
  case Nil
  then show ?case by simp
next
  case (Cons b bs)
  show ?case
  proof (cases "k < 8")
    case True
    then show ?thesis by (auto simp: bit_simps)
  next
    case False
    then obtain j where k: "k = 8 + j" by (metis le_add_diff_inverse not_less)
    have b: "\<not> bit b k" using False by (auto simp: bit_simps dest!: bit_imp_le_length)
    have d: "(8 + j) div 8 = Suc (j div 8)" by simp
    show ?thesis using Cons.IH [of j] b by (auto simp: k d bit_simps)
  qed
qed

lemma le_bytes_word:
  assumes "8 * n = LENGTH('a::len)"
  shows "le_word (le_bytes n (w :: 'a word)) = w"
proof (rule bit_word_eqI)
  fix k assume "k < LENGTH('a)"
  then have "k div 8 < n" and "k mod 8 < 8" using assms by auto
  then show "bit (le_word (le_bytes n w) :: 'a word) k = bit w k"
    using \<open>k < LENGTH('a)\<close> by (simp add: bit_le_word le_bytes_def bit_simps)
qed

lemma le_word_bytes:
  assumes "8 * length bs = LENGTH('a::len)"
  shows "le_bytes (length bs) (le_word bs :: 'a word) = bs"
proof (rule nth_equalityI)
  show "length (le_bytes (length bs) (le_word bs :: 'a word)) = length bs"
    by (simp add: le_bytes_def)
  fix i assume i: "i < length (le_bytes (length bs) (le_word bs :: 'a word))"
  then have i: "i < length bs" by (simp add: le_bytes_def)
  show "le_bytes (length bs) (le_word bs :: 'a word) ! i = bs ! i"
  proof (rule bit_word_eqI)
    fix k assume k: "k < LENGTH(8)"
    then have "(8 * i + k) div 8 = i" and "(8 * i + k) mod 8 = k" and "8 * i + k < LENGTH('a)"
      using i assms by auto
    then show "bit (le_bytes (length bs) (le_word bs :: 'a word) ! i) k = bit (bs ! i) k"
      using i k by (simp add: le_bytes_def bit_simps bit_le_word)
  qed
qed

lemma length_host_bytes [simp]: "length (host_bytes little n w) = n"
  by (simp add: host_bytes_def le_bytes_def)

lemma host_word_bytes:
  assumes "8 * n = LENGTH('a::len)"
  shows "host_word little (host_bytes little n (w :: 'a word)) = w"
  using le_bytes_word [OF assms] by (simp add: host_word_def host_bytes_def)

lemma host_bytes_word:
  assumes "8 * n = LENGTH('a::len)" and "length bs = n"
  shows "host_bytes little n (host_word little bs :: 'a word) = bs"
  using le_word_bytes [of bs, where 'a = 'a] le_word_bytes [of "rev bs", where 'a = 'a] assms
  by (auto simp: host_word_def host_bytes_def)

interpretation field16: packed_field "host_bytes le 2 :: 16 word \<Rightarrow> _" "host_word le" 2 for le
  by unfold_locales (simp_all add: host_word_bytes host_bytes_word)

interpretation field32: packed_field "host_bytes le 4 :: 32 word \<Rightarrow> _" "host_word le" 4 for le
  by unfold_locales (simp_all add: host_word_bytes host_bytes_word)

interpretation field64: packed_field "host_bytes le 8 :: 64 word \<Rightarrow> _" "host_word le" 8 for le
  by unfold_locales (simp_all add: host_word_bytes host_bytes_word)

text \<open>
  Two four-bit fields of one byte: the first declared is the low half on a little-endian
  host and the high half on a big-endian one.
\<close>

definition nibbles :: "bool \<Rightarrow> 4 word \<Rightarrow> 4 word \<Rightarrow> 8 word" where
  "nibbles little a b =
     (if little then push_bit 4 (ucast b) OR ucast a else push_bit 4 (ucast a) OR ucast b)"

definition nibble1 :: "bool \<Rightarrow> 8 word \<Rightarrow> 4 word" where
  "nibble1 little x = ucast (if little then x else drop_bit 4 x)"

definition nibble2 :: "bool \<Rightarrow> 8 word \<Rightarrow> 4 word" where
  "nibble2 little x = ucast (if little then drop_bit 4 x else x)"

lemma nibble_pair: "ucast (push_bit 4 (ucast (b :: 4 word)) OR ucast (a :: 4 word) :: 8 word) = a"
  and nibble_high: "ucast (drop_bit 4 (push_bit 4 (ucast (b :: 4 word)) OR ucast (a :: 4 word) :: 8 word)) = b"
  by (rule bit_word_eqI; auto simp: bit_simps dest: bit_imp_le_length)+

lemma nibble_nibbles [simp]:
  "nibble1 little (nibbles little a b) = a" "nibble2 little (nibbles little a b) = b"
  by (cases little; simp only: nibble1_def nibble2_def nibbles_def if_True if_False
      nibble_pair nibble_high)+

lemma nibble_join: "push_bit 4 (ucast (ucast (drop_bit 4 x) :: 4 word)) OR ucast (ucast x :: 4 word) = (x :: 8 word)"
  by (rule bit_word_eqI) (auto simp: bit_simps not_le)

lemma nibbles_nibble [simp]: "nibbles little (nibble1 little x) (nibble2 little x) = x"
  by (simp add: nibbles_def nibble1_def nibble2_def nibble_join)

text \<open>The number a list of bytes stands for on a host of either endianness.\<close>

definition number :: "bool \<Rightarrow> 8 word list \<Rightarrow> nat" where
  "number little bs = foldl (\<lambda>n b. 256 * n + unat b) 0 (if little then rev bs else bs)"

lemma le_word_number: "le_word bs = (of_nat (number True bs) :: 'a::len word)"
proof (induction bs)
  case Nil
  then show ?case by (simp add: number_def)
next
  case (Cons b bs)
  have "le_word (b # bs) = ucast b + push_bit 8 (le_word bs :: 'a word)"
    by (simp, rule disjunctive_add [symmetric]) (auto simp: bit_simps dest: bit_imp_le_length)
  also have "\<dots> = of_nat (unat b) + 256 * of_nat (number True bs)"
    by (simp add: Cons.IH push_bit_eq_mult mult.commute)
  finally show ?case by (simp add: number_def)
qed

lemma host_word_number: "host_word little bs = of_nat (number little bs)"
  by (simp add: host_word_def le_word_number) (simp add: number_def)

lemma nibble_numbers:
  "nibble1 little x = of_nat (if little then unat x mod 16 else unat x div 16)"
  "nibble2 little x = of_nat (if little then unat x div 16 else unat x mod 16)"
proof -
  have "ucast x = (of_nat (unat x mod 16) :: 4 word)"
    by (rule word_unat_eq_iff [THEN iffD2]) (simp add: unat_of_nat unsigned_ucast_eq take_bit_eq_mod)
  moreover have "ucast (drop_bit 4 x) = (of_nat (unat x div 16) :: 4 word)"
    by (rule word_unat_eq_iff [THEN iffD2]) (simp add: unat_of_nat unsigned_ucast_eq unat_drop_bit_eq drop_bit_eq_div take_bit_eq_mod unat_div)
  ultimately show "nibble1 little x = of_nat (if little then unat x mod 16 else unat x div 16)"
    and "nibble2 little x = of_nat (if little then unat x div 16 else unat x mod 16)"
    by (simp_all add: nibble1_def nibble2_def)
qed

text \<open>A host of the other endianness exchanges the two fields.\<close>

lemma other_endian:
  "nibble1 (\<not> little) (nibbles little a b) = b" "nibble2 (\<not> little) (nibbles little a b) = a"
  by (cases little; simp only: nibble1_def nibble2_def nibbles_def if_True if_False not_True_eq_False
      not_False_eq_True nibble_pair nibble_high)+

section \<open>The headers\<close>

text \<open>\<open>uet_header_t\<close>, and \<open>uet_header_v2_t\<close> with the IP version in the reserved bits.\<close>

record uet_header =
  uh_version :: "4 word"
  uh_reserved :: "4 word"
  uh_flags :: "8 word"
  uh_length :: "16 word"
  uh_flow_id :: "32 word"
  uh_sequence_num :: "32 word"
  uh_checksum :: "16 word"
  uh_urgent_ptr :: "16 word"

definition uet_header_bytes :: "bool \<Rightarrow> uet_header \<Rightarrow> 8 word list" where
  "uet_header_bytes le h =
     [nibbles le (uh_version h) (uh_reserved h), uh_flags h] @ host_bytes le 2 (uh_length h) @
     host_bytes le 4 (uh_flow_id h) @ host_bytes le 4 (uh_sequence_num h) @
     host_bytes le 2 (uh_checksum h) @ host_bytes le 2 (uh_urgent_ptr h)"

definition uet_header_at :: "bool \<Rightarrow> 8 word list \<Rightarrow> uet_header" where
  "uet_header_at le bs =
     \<lparr>uh_version = nibble1 le (bs ! 0), uh_reserved = nibble2 le (bs ! 0), uh_flags = bs ! 1,
      uh_length = host_word le (take 2 (drop 2 bs)), uh_flow_id = host_word le (take 4 (drop 4 bs)),
      uh_sequence_num = host_word le (take 4 (drop 8 bs)),
      uh_checksum = host_word le (take 2 (drop 12 bs)),
      uh_urgent_ptr = host_word le (take 2 (drop 14 bs))\<rparr>"

record uet_header_v2 =
  vh_version :: "4 word"
  vh_ip_version :: "4 word"
  vh_flags :: "8 word"
  vh_length :: "16 word"
  vh_flow_id :: "32 word"
  vh_sequence_num :: "32 word"
  vh_checksum :: "16 word"
  vh_urgent_ptr :: "16 word"

definition uet_header_v2_bytes :: "bool \<Rightarrow> uet_header_v2 \<Rightarrow> 8 word list" where
  "uet_header_v2_bytes le h =
     [nibbles le (vh_version h) (vh_ip_version h), vh_flags h] @ host_bytes le 2 (vh_length h) @
     host_bytes le 4 (vh_flow_id h) @ host_bytes le 4 (vh_sequence_num h) @
     host_bytes le 2 (vh_checksum h) @ host_bytes le 2 (vh_urgent_ptr h)"

definition uet_header_v2_at :: "bool \<Rightarrow> 8 word list \<Rightarrow> uet_header_v2" where
  "uet_header_v2_at le bs =
     \<lparr>vh_version = nibble1 le (bs ! 0), vh_ip_version = nibble2 le (bs ! 0), vh_flags = bs ! 1,
      vh_length = host_word le (take 2 (drop 2 bs)), vh_flow_id = host_word le (take 4 (drop 4 bs)),
      vh_sequence_num = host_word le (take 4 (drop 8 bs)),
      vh_checksum = host_word le (take 2 (drop 12 bs)),
      vh_urgent_ptr = host_word le (take 2 (drop 14 bs))\<rparr>"

text \<open>\<open>pds_header_t\<close>: the packet delivery sub-layer.\<close>

record pds_header =
  pds_type :: "8 word"
  reliability_mode :: "8 word"
  connection_id :: "16 word"
  pds_ack_num :: "32 word"
  pds_window_size :: "16 word"
  pds_options :: "16 word"

definition pds_header_bytes :: "bool \<Rightarrow> pds_header \<Rightarrow> 8 word list" where
  "pds_header_bytes le h =
     [pds_type h, reliability_mode h] @ host_bytes le 2 (connection_id h) @
     host_bytes le 4 (pds_ack_num h) @ host_bytes le 2 (pds_window_size h) @
     host_bytes le 2 (pds_options h)"

definition pds_header_at :: "bool \<Rightarrow> 8 word list \<Rightarrow> pds_header" where
  "pds_header_at le bs =
     \<lparr>pds_type = bs ! 0, reliability_mode = bs ! 1, connection_id = host_word le (take 2 (drop 2 bs)),
      pds_ack_num = host_word le (take 4 (drop 4 bs)),
      pds_window_size = host_word le (take 2 (drop 8 bs)),
      pds_options = host_word le (take 2 (drop 10 bs))\<rparr>"

text \<open>\<open>semantic_header_t\<close>.\<close>

record semantic_header =
  op_code :: "8 word"
  msg_type :: "8 word"
  sem_tag :: "16 word"
  sem_remote_addr :: "64 word"
  sem_rkey :: "32 word"
  sem_length :: "32 word"

definition semantic_header_bytes :: "bool \<Rightarrow> semantic_header \<Rightarrow> 8 word list" where
  "semantic_header_bytes le h =
     [op_code h, msg_type h] @ host_bytes le 2 (sem_tag h) @ host_bytes le 8 (sem_remote_addr h) @
     host_bytes le 4 (sem_rkey h) @ host_bytes le 4 (sem_length h)"

definition semantic_header_at :: "bool \<Rightarrow> 8 word list \<Rightarrow> semantic_header" where
  "semantic_header_at le bs =
     \<lparr>op_code = bs ! 0, msg_type = bs ! 1, sem_tag = host_word le (take 2 (drop 2 bs)),
      sem_remote_addr = host_word le (take 8 (drop 4 bs)),
      sem_rkey = host_word le (take 4 (drop 12 bs)), sem_length = host_word le (take 4 (drop 16 bs))\<rparr>"

text \<open>The members as numbers.\<close>

lemma uet_members:
  "uet_header_at le [b0, b1, b2, b3, b4, b5, b6, b7, b8, b9, b10, b11, b12, b13, b14, b15] =
     \<lparr>uh_version = of_nat (if le then unat b0 mod 16 else unat b0 div 16),
      uh_reserved = of_nat (if le then unat b0 div 16 else unat b0 mod 16), uh_flags = b1,
      uh_length = of_nat (number le [b2, b3]), uh_flow_id = of_nat (number le [b4, b5, b6, b7]),
      uh_sequence_num = of_nat (number le [b8, b9, b10, b11]),
      uh_checksum = of_nat (number le [b12, b13]), uh_urgent_ptr = of_nat (number le [b14, b15])\<rparr>"
  by (simp add: uet_header_at_def host_word_number nibble_numbers)

lemma uet_v2_members:
  "uet_header_v2_at le [b0, b1, b2, b3, b4, b5, b6, b7, b8, b9, b10, b11, b12, b13, b14, b15] =
     \<lparr>vh_version = of_nat (if le then unat b0 mod 16 else unat b0 div 16),
      vh_ip_version = of_nat (if le then unat b0 div 16 else unat b0 mod 16), vh_flags = b1,
      vh_length = of_nat (number le [b2, b3]), vh_flow_id = of_nat (number le [b4, b5, b6, b7]),
      vh_sequence_num = of_nat (number le [b8, b9, b10, b11]),
      vh_checksum = of_nat (number le [b12, b13]), vh_urgent_ptr = of_nat (number le [b14, b15])\<rparr>"
  by (simp add: uet_header_v2_at_def host_word_number nibble_numbers)

lemma pds_members:
  "pds_header_at le [b0, b1, b2, b3, b4, b5, b6, b7, b8, b9, b10, b11] =
     \<lparr>pds_type = b0, reliability_mode = b1, connection_id = of_nat (number le [b2, b3]),
      pds_ack_num = of_nat (number le [b4, b5, b6, b7]), pds_window_size = of_nat (number le [b8, b9]),
      pds_options = of_nat (number le [b10, b11])\<rparr>"
  by (simp add: pds_header_at_def host_word_number)

lemma semantic_members:
  "semantic_header_at le
       [b0, b1, b2, b3, b4, b5, b6, b7, b8, b9, b10, b11, b12, b13, b14, b15, b16, b17, b18, b19] =
     \<lparr>op_code = b0, msg_type = b1, sem_tag = of_nat (number le [b2, b3]),
      sem_remote_addr = of_nat (number le [b4, b5, b6, b7, b8, b9, b10, b11]),
      sem_rkey = of_nat (number le [b12, b13, b14, b15]),
      sem_length = of_nat (number le [b16, b17, b18, b19])\<rparr>"
  by (simp add: semantic_header_at_def host_word_number)

lemmas header_members = uet_members uet_v2_members pds_members semantic_members

lemma other_endian_version:
  "uh_version (uet_header_at (\<not> le) (uet_header_bytes le h)) = uh_reserved h"
  "vh_ip_version (uet_header_v2_at (\<not> le) (uet_header_v2_bytes le g)) = vh_version g"
  by (simp_all add: uet_header_at_def uet_header_bytes_def uet_header_v2_at_def uet_header_v2_bytes_def other_endian)

lemma two_bytes_then: "2 \<le> length bs \<Longrightarrow> bs ! 0 # bs ! Suc 0 # drop 2 bs = bs"
  by (cases bs; cases "tl bs") auto

lemma chunk_then: "k = n + m \<Longrightarrow> take m (drop n bs) @ drop k bs = drop n bs"
  by (metis add.commute append_take_drop_id drop_drop)

lemmas header_codec = host_word_bytes host_bytes_word two_bytes_then chunk_then

interpretation uet: packed_field "uet_header_bytes le" "uet_header_at le" 16 for le
  by unfold_locales (simp_all add: uet_header_bytes_def uet_header_at_def header_codec)

interpretation uet_v2: packed_field "uet_header_v2_bytes le" "uet_header_v2_at le" 16 for le
  by unfold_locales (simp_all add: uet_header_v2_bytes_def uet_header_v2_at_def header_codec)

interpretation pds: packed_field "pds_header_bytes le" "pds_header_at le" 12 for le
  by unfold_locales (simp_all add: pds_header_bytes_def pds_header_at_def header_codec)

interpretation sem: packed_field "semantic_header_bytes le" "semantic_header_at le" 20 for le
  by unfold_locales (simp_all add: semantic_header_bytes_def semantic_header_at_def header_codec)

section \<open>Packets\<close>

text \<open>
  \<open>uet_packet_t\<close>: the headers one after the other, and a flexible array for the payload. The
  system's \<open>struct iphdr\<close> has 20 bytes, its \<open>struct udphdr\<close> 8.
\<close>

record uet_packet =
  pk_ip_hdr :: "8 word list"
  pk_udp_hdr :: "8 word list"
  pk_uet_hdr :: uet_header
  pk_pds_hdr :: pds_header
  pk_sem_hdr :: semantic_header
  pk_payload :: "8 word list"

definition uet_packet_ok :: "uet_packet \<Rightarrow> bool" where
  "uet_packet_ok p \<longleftrightarrow> length (pk_ip_hdr p) = sizeof_iphdr \<and> length (pk_udp_hdr p) = sizeof_udphdr"

definition uet_packet_bytes :: "bool \<Rightarrow> uet_packet \<Rightarrow> 8 word list" where
  "uet_packet_bytes le p =
     pk_ip_hdr p @ pk_udp_hdr p @ uet_header_bytes le (pk_uet_hdr p) @
     pds_header_bytes le (pk_pds_hdr p) @ semantic_header_bytes le (pk_sem_hdr p) @ pk_payload p"

text \<open>What the members of the structure are when it lies over a buffer.\<close>

definition uet_packet_at :: "bool \<Rightarrow> 8 word list \<Rightarrow> uet_packet" where
  "uet_packet_at le bs =
     \<lparr>pk_ip_hdr = take 20 bs, pk_udp_hdr = take 8 (drop 20 bs),
      pk_uet_hdr = uet_header_at le (take 16 (drop 28 bs)),
      pk_pds_hdr = pds_header_at le (take 12 (drop 44 bs)),
      pk_sem_hdr = semantic_header_at le (take 20 (drop 56 bs)), pk_payload = drop 76 bs\<rparr>"

text \<open>
  \<open>ue_packet_v2_t\<close>: its first member is a union of the two IP headers, so it has the size of
  the larger one, 40 bytes, for either version.
\<close>

record ue_packet_v2 =
  qk_ip_hdr :: "8 word list"
  qk_udp_hdr :: "8 word list"
  qk_uet_hdr :: uet_header_v2
  qk_payload :: "8 word list"

definition sizeof_ip6_hdr :: nat where "sizeof_ip6_hdr = 40"

definition ue_packet_v2_at :: "bool \<Rightarrow> 8 word list \<Rightarrow> ue_packet_v2" where
  "ue_packet_v2_at le bs =
     (let u = max sizeof_iphdr sizeof_ip6_hdr
      in \<lparr>qk_ip_hdr = take u bs, qk_udp_hdr = take 8 (drop u bs),
          qk_uet_hdr = uet_header_v2_at le (take 16 (drop (u + 8) bs)), qk_payload = drop (u + 24) bs\<rparr>)"

lemma length_header_bytes [simp]:
  "length (uet_header_bytes le h) = 16" "length (uet_header_v2_bytes le h') = 16"
  "length (pds_header_bytes le d) = 12" "length (semantic_header_bytes le m) = 20"
  by (simp_all add: uet.enc_length uet_v2.enc_length pds.enc_length sem.enc_length)

lemmas header_at = uet.dec_enc uet_v2.dec_enc pds.dec_enc sem.dec_enc

section \<open>Examples\<close>

definition uet_ex :: uet_header where
  "uet_ex = \<lparr>uh_version = 1, uh_reserved = 0, uh_flags = 0, uh_length = 258, uh_flow_id = 7,
     uh_sequence_num = 9, uh_checksum = 513, uh_urgent_ptr = 0\<rparr>"

definition packet_ex :: uet_packet where
  "packet_ex =
     \<lparr>pk_ip_hdr = ip_header flow_ex_pre flow_ex_id [], pk_udp_hdr = bytes16 4793 @ bytes16 4794 @ [0, 64, 0, 0],
      pk_uet_hdr = uet_ex,
      pk_pds_hdr = \<lparr>pds_type = 1, reliability_mode = 2, connection_id = 3, pds_ack_num = 4,
        pds_window_size = 5, pds_options = 6\<rparr>,
      pk_sem_hdr = \<lparr>op_code = 1, msg_type = 2, sem_tag = 3, sem_remote_addr = 4, sem_rkey = 5,
        sem_length = 6\<rparr>,
      pk_payload = [1, 2, 3, 4]\<rparr>"

lemma packet_ex_fields [simp]:
  "pk_ip_hdr packet_ex = ip_header flow_ex_pre flow_ex_id []"
  "pk_udp_hdr packet_ex = bytes16 4793 @ bytes16 4794 @ [0, 64, 0, 0]"
  "uet_packet_ok packet_ex"
  by (simp_all add: packet_ex_def uet_packet_ok_def ip_header_def flow_ex_pre_def bytes16_def
      bytes32_def sizeof_iphdr_def sizeof_udphdr_def)

text \<open>The flow of a packet is in its IP header and its ports.\<close>

lemma parse_uet_packet:
  assumes "length pre = 8" and "pk_ip_hdr p = ip_header pre fid []"
    and "pk_udp_hdr p = bytes16 (src_port fid) @ bytes16 (dst_port fid) @ rest"
  shows "parsePacketFlowId (uet_packet_bytes le p) (length (uet_packet_bytes le p)) =
    Inr (fid\<lparr>ip_version := 4\<rparr>)"
proof -
  let ?rest = "rest @ uet_header_bytes le (pk_uet_hdr p) @ pds_header_bytes le (pk_pds_hdr p) @
    semantic_header_bytes le (pk_sem_hdr p) @ pk_payload p"
  have "uet_packet_bytes le p = ip_header pre fid [] @ bytes16 (src_port fid) @ bytes16 (dst_port fid) @ ?rest"
    by (simp add: uet_packet_bytes_def assms(2,3))
  then show ?thesis using parse_udp_ports [OF assms(1), of ?rest fid] by simp
qed

lemma packet_ex_flow:
  "parsePacketFlowId (uet_packet_bytes le packet_ex) 80 = Inr flow_ex_id"
  "length (uet_packet_bytes le packet_ex) = 80"
proof -
  show len: "length (uet_packet_bytes le packet_ex) = 80"
    by (simp add: uet_packet_bytes_def packet_ex_def ip_header_def flow_ex_pre_def bytes16_def bytes32_def)
  show "parsePacketFlowId (uet_packet_bytes le packet_ex) 80 = Inr flow_ex_id"
    using parse_uet_packet [of flow_ex_pre packet_ex flow_ex_id "[0, 64, 0, 0]" le] len
    by (simp add: flow_ex_pre_def flow_ex_id_def)
qed

section \<open>Properties\<close>

text \<open>
  Property C40: the members of the packed headers are the bytes the C declarations give them. On
  a host of either endianness, each member is the number written by its own bytes, in the
  host's order, at its offset: the flow at 4 to 7 and the sequence number at 8 to 11 of both
  transport headers, and so on for the delivery and the semantic header; the two four-bit
  fields share byte 0, version in the low half on a little-endian host and in the high half
  on a big-endian one. So a header does not survive a change of endianness: what one host
  writes as reserved bits the other reads as the version.
\<close>

theorem wire_headers_layout:
  "uet_header_at le [b0, b1, b2, b3, b4, b5, b6, b7, b8, b9, b10, b11, b12, b13, b14, b15] =
     \<lparr>uh_version = of_nat (if le then unat b0 mod 16 else unat b0 div 16),
      uh_reserved = of_nat (if le then unat b0 div 16 else unat b0 mod 16), uh_flags = b1,
      uh_length = of_nat (number le [b2, b3]), uh_flow_id = of_nat (number le [b4, b5, b6, b7]),
      uh_sequence_num = of_nat (number le [b8, b9, b10, b11]),
      uh_checksum = of_nat (number le [b12, b13]), uh_urgent_ptr = of_nat (number le [b14, b15])\<rparr> \<and>
   uet_header_v2_at le [b0, b1, b2, b3, b4, b5, b6, b7, b8, b9, b10, b11, b12, b13, b14, b15] =
     \<lparr>vh_version = of_nat (if le then unat b0 mod 16 else unat b0 div 16),
      vh_ip_version = of_nat (if le then unat b0 div 16 else unat b0 mod 16), vh_flags = b1,
      vh_length = of_nat (number le [b2, b3]), vh_flow_id = of_nat (number le [b4, b5, b6, b7]),
      vh_sequence_num = of_nat (number le [b8, b9, b10, b11]),
      vh_checksum = of_nat (number le [b12, b13]), vh_urgent_ptr = of_nat (number le [b14, b15])\<rparr> \<and>
   pds_header_at le [b0, b1, b2, b3, b4, b5, b6, b7, b8, b9, b10, b11] =
     \<lparr>pds_type = b0, reliability_mode = b1, connection_id = of_nat (number le [b2, b3]),
      pds_ack_num = of_nat (number le [b4, b5, b6, b7]), pds_window_size = of_nat (number le [b8, b9]),
      pds_options = of_nat (number le [b10, b11])\<rparr> \<and>
   semantic_header_at le
       [b0, b1, b2, b3, b4, b5, b6, b7, b8, b9, b10, b11, b12, b13, b14, b15, b16, b17, b18, b19] =
     \<lparr>op_code = b0, msg_type = b1, sem_tag = of_nat (number le [b2, b3]),
      sem_remote_addr = of_nat (number le [b4, b5, b6, b7, b8, b9, b10, b11]),
      sem_rkey = of_nat (number le [b12, b13, b14, b15]),
      sem_length = of_nat (number le [b16, b17, b18, b19])\<rparr> \<and>
   uh_version (uet_header_at (\<not> le) (uet_header_bytes le h)) = uh_reserved h \<and>
   vh_ip_version (uet_header_v2_at (\<not> le) (uet_header_v2_bytes le g)) = vh_version g"
  by (intro conjI header_members) (simp_all only: other_endian_version)

text \<open>
  Property C19: a packet is exactly its bytes: laying \<open>uet_packet_t\<close> over the bytes of a
  packet finds every header and the payload again (the transport header at 28, the delivery
  header at 44, the semantic header at 56, the payload from 76 on), and every buffer of at
  least 76 bytes is a packet in this way.
\<close>

theorem uet_packet_layout:
  "(uet_packet_ok p \<longrightarrow> uet_packet_at le (uet_packet_bytes le p) = p) \<and>
   (76 \<le> length bs \<longrightarrow>
      uet_packet_ok (uet_packet_at le bs) \<and> uet_packet_bytes le (uet_packet_at le bs) = bs)"
proof (intro conjI impI)
  show "uet_packet_at le (uet_packet_bytes le p) = p" if "uet_packet_ok p"
    using that
    by (simp add: uet_packet_ok_def uet_packet_at_def uet_packet_bytes_def header_at
        sizeof_iphdr_def sizeof_udphdr_def)
  assume len: "76 \<le> length bs"
  show "uet_packet_ok (uet_packet_at le bs)"
    using len by (simp add: uet_packet_ok_def uet_packet_at_def sizeof_iphdr_def sizeof_udphdr_def)
  show "uet_packet_bytes le (uet_packet_at le bs) = bs"
    using len
    by (simp add: uet_packet_bytes_def uet_packet_at_def uet.enc_dec pds.enc_dec sem.enc_dec chunk_then)
qed

theorem uet_packet_layout_witness:
  "uet_packet_at True (uet_packet_bytes True packet_ex) = packet_ex \<and>
   uet_packet_bytes False (uet_packet_at False (replicate 80 3)) = replicate 80 3"
  using uet_packet_layout [of packet_ex True] uet_packet_layout [of packet_ex False "replicate 80 3"] by simp

text \<open>
  The flow manager identifies an Ultra Ethernet packet by its IPv4 addresses and
  UDP ports alone: whatever the transport, delivery and semantic headers and the payload
  say, and whatever the order of their bytes, two packets between the same ports belong to
  the same flow.
\<close>

theorem uet_packet_flow:
  assumes "length pre = 8" and "pk_ip_hdr p = ip_header pre fid []"
    and "pk_udp_hdr p = bytes16 (src_port fid) @ bytes16 (dst_port fid) @ rest"
  shows "parsePacketFlowId (uet_packet_bytes le p) (length (uet_packet_bytes le p)) =
    Inr (fid\<lparr>ip_version := 4\<rparr>)"
  using assms by (rule parse_uet_packet)

theorem uet_packet_flow_witness:
  "parsePacketFlowId (uet_packet_bytes True packet_ex) (length (uet_packet_bytes True packet_ex)) =
   Inr (flow_ex_id\<lparr>ip_version := 4\<rparr>)"
  by (rule uet_packet_flow [of flow_ex_pre _ _ "[0, 64, 0, 0]"])
    (simp_all add: flow_ex_pre_def flow_ex_id_def)

text \<open>
  The two versions of the transport header have the same layout, and the
  dual-stack code finds the IP version where the older header has its reserved bits: a header
  written by the older code with the reserved bits clear is read as IP version 0, which
  \<open>ue_addr_family\<close> takes for IPv6 and \<open>ue_addr_to_sockaddr\<close> refuses.
\<close>

theorem header_versions_differ:
  "uet_header_v2_at le (uet_header_bytes le h) =
     \<lparr>vh_version = uh_version h, vh_ip_version = uh_reserved h, vh_flags = uh_flags h,
      vh_length = uh_length h, vh_flow_id = uh_flow_id h, vh_sequence_num = uh_sequence_num h,
      vh_checksum = uh_checksum h, vh_urgent_ptr = uh_urgent_ptr h\<rparr> \<and>
   (uh_reserved h = 0 \<longrightarrow>
      (let v = ucast (vh_ip_version (uet_header_v2_at le (uet_header_bytes le h)))
       in ue_addr_family a v = AF_INET6 \<and> ue_addr_to_sockaddr a v port = (- 1, Sockaddr_other 0)))"
proof -
  have "uet_header_bytes le h = uet_header_v2_bytes le
     \<lparr>vh_version = uh_version h, vh_ip_version = uh_reserved h, vh_flags = uh_flags h,
      vh_length = uh_length h, vh_flow_id = uh_flow_id h, vh_sequence_num = uh_sequence_num h,
      vh_checksum = uh_checksum h, vh_urgent_ptr = uh_urgent_ptr h\<rparr>"
    by (simp add: uet_header_bytes_def uet_header_v2_bytes_def)
  then show ?thesis
    by (simp add: uet_v2.dec_enc ue_addr_family_def ue_addr_to_sockaddr_def Let_def)
qed

theorem header_versions_differ_witness:
  "ue_addr_family [] (ucast (vh_ip_version (uet_header_v2_at True (uet_header_bytes True uet_ex)))) = AF_INET6"
proof -
  have "uh_reserved uet_ex = 0" by (simp add: uet_ex_def)
  then show ?thesis using header_versions_differ [of True uet_ex "[]" 0] unfolding Let_def by blast
qed

text \<open>
  Property C20: the packet structure of the dual-stack code fits IPv6 packets only. Its first
  member has the size of an IPv6 header for either version: over an IPv6 packet every member
  is in place, while over an IPv4 packet the UDP header is read from the last four bytes of
  the transport header (checksum and urgent pointer) and the first four of the payload.
\<close>

theorem packet_v2_fits_ipv6_only:
  assumes "length ip4 = sizeof_iphdr" and "length ip6 = sizeof_ip6_hdr" and "length udp = sizeof_udphdr"
    and "4 \<le> length payload"
  shows "ue_packet_v2_at le (ip6 @ udp @ uet_header_v2_bytes le h @ payload) =
      \<lparr>qk_ip_hdr = ip6, qk_udp_hdr = udp, qk_uet_hdr = h, qk_payload = payload\<rparr> \<and>
    qk_udp_hdr (ue_packet_v2_at le (ip4 @ udp @ uet_header_v2_bytes le h @ payload)) =
      host_bytes le 2 (vh_checksum h) @ host_bytes le 2 (vh_urgent_ptr h) @ take 4 payload"
proof -
  have "drop 12 (uet_header_v2_bytes le h) = host_bytes le 2 (vh_checksum h) @ host_bytes le 2 (vh_urgent_ptr h)"
    by (simp add: uet_header_v2_bytes_def)
  then show ?thesis
    using assms
    by (simp add: ue_packet_v2_at_def Let_def sizeof_iphdr_def sizeof_ip6_hdr_def sizeof_udphdr_def
        uet_v2.dec_enc)
qed

theorem packet_v2_fits_ipv6_only_witness:
  "qk_udp_hdr (ue_packet_v2_at True (replicate 20 0 @ replicate 8 1 @
     uet_header_v2_bytes True (uet_header_v2_at True (replicate 16 2)) @ [3, 4, 5, 6])) =
   [2, 2, 2, 2, 3, 4, 5, 6]"
proof -
  have "host_bytes True 2 (host_word True [2, 2] :: 16 word) = [2, 2]"
    by (rule host_bytes_word) simp_all
  then show ?thesis
    using packet_v2_fits_ipv6_only [of "replicate 20 0" "replicate 40 0" "replicate 8 1" "[3, 4, 5, 6]" True
        "uet_header_v2_at True (replicate 16 2)"]
    by (simp add: sizeof_iphdr_def sizeof_ip6_hdr_def sizeof_udphdr_def uet_header_v2_at_def numeral_eq_Suc)
qed

end
