(* ===== verification/Traffic.thy ===== *)
theory Traffic
  imports Flow_Manager Wire_Headers
begin

text \<open>
  The path of a packet through the transport daemon, from its bytes to the state database:
  the packet parser, the flow table, the counters and the statistics pass together.
\<close>

section \<open>Traffic and time\<close>

text \<open>
  Packets and periodic calls in the order they happen; a periodic call reads the clock at
  \<open>now\<close>, and its clean-up reads it again at \<open>now'\<close>.
\<close>

datatype traffic_event = Arrives int int "8 word list" | Ticks int int

fun flow_event ::
  "flow_env \<Rightarrow> traffic_event \<Rightarrow> ('p::len, 'c::len, 'r::len) flow_state \<Rightarrow> ('p, 'c, 'r) flow_state outcome" where
  "flow_event E (Arrives now now' p) s = processIncomingPacket now now' p (length p) s"
| "flow_event E (Ticks now now') s = flow_doPeriodicTask E now now' s"

fun flow_events ::
  "flow_env \<Rightarrow> traffic_event list \<Rightarrow> ('p::len, 'c::len, 'r::len) flow_state \<Rightarrow> ('p, 'c, 'r) flow_state outcome" where
  "flow_events E [] s = Normal s"
| "flow_events E (e # es) s = out_bind (flow_event E e s) (flow_events E es)"

lemma flow_events_append:
  "flow_events E (xs @ ys) s = out_bind (flow_events E xs s) (flow_events E ys)"
proof (induction xs arbitrary: s)
  case (Cons e xs)
  then show ?case by (cases "flow_event E e s") simp_all
qed simp

fun tick_times :: "traffic_event list \<Rightarrow> int list" where
  "tick_times [] = []"
| "tick_times (Arrives now now' p # es) = tick_times es"
| "tick_times (Ticks now now' # es) = now # tick_times es"

fun packet_count :: "traffic_event list \<Rightarrow> nat" where
  "packet_count [] = 0"
| "packet_count (Arrives now now' p # es) = Suc (packet_count es)"
| "packet_count (Ticks now now' # es) = packet_count es"

text \<open>Events between two times: no packet is noted before \<open>a\<close>, no clean-up runs after \<open>b\<close>.\<close>

fun during :: "int \<Rightarrow> int \<Rightarrow> traffic_event \<Rightarrow> bool" where
  "during a b (Arrives now now' p) \<longleftrightarrow> a \<le> now'"
| "during a b (Ticks now now') \<longleftrightarrow> now' \<le> b"

section \<open>Counting packets\<close>

text \<open>The sizes of the packets of a flow.\<close>

fun sizes_of :: "UEFlowId \<Rightarrow> traffic_event list \<Rightarrow> nat list" where
  "sizes_of fid [] = []"
| "sizes_of fid (Arrives now now' p # es) =
     (if parsePacketFlowId p (length p) = Inr fid then length p # sizes_of fid es else sizes_of fid es)"
| "sizes_of fid (Ticks now now' # es) = sizes_of fid es"

definition add_traffic :: "nat list \<Rightarrow> ('c::len, 'r::len) UEFlowStats \<Rightarrow> ('c, 'r) UEFlowStats" where
  "add_traffic ls st =
     st\<lparr>packets_received := packets_received st + of_nat (length ls),
        bytes_received := bytes_received st + of_nat (sum_list ls)\<rparr>"

lemma add_traffic_Nil [simp]: "add_traffic [] st = st"
  by (simp add: add_traffic_def)

lemma add_traffic_Cons: "add_traffic (l # ls) st = add_traffic ls (add_traffic [l] st)"
  by (simp add: add_traffic_def add.assoc)

text \<open>What one packet does, when its flow is known or there is room for it.\<close>

definition counted :: "UEFlowId \<Rightarrow> bool" where
  "counted fid \<longleftrightarrow> src_ip fid \<noteq> 0 \<and> dst_ip fid \<noteq> 0"

lemma add_traffic_one:
  "add_traffic [l] = (\<lambda>st. st\<lparr>packets_received := packets_received st + 1,
     bytes_received := bytes_received st + of_nat l\<rparr>)"
  by (rule ext) (simp add: add_traffic_def)

lemma packet_counts:
  assumes "flow_inv E s" and "parsePacketFlowId p len = Inr fid" and "counted fid"
    and "length (m_active_flows s) < unat (m_max_flows s)"
  shows "\<exists>s'. processIncomingPacket now now' p len s = Normal s' \<and>
    m_flow_stats s' = um_modify zero_flow_stats fid (add_traffic [len])
      (if um_find (m_flow_stats s) fid = None then um_assign fid zero_flow_stats (m_flow_stats s)
       else m_flow_stats s) \<and>
    length (m_active_flows s') \<le> Suc (length (m_active_flows s)) \<and> m_max_flows s' = m_max_flows s"
proof -
  have known: "um_find (m_flow_stats s) fid = None \<longleftrightarrow> um_find (m_active_flows s) fid = None"
    using flow_invD(4) [OF assms(1)] by (metis domIff)
  show ?thesis
  proof (cases "um_find (m_active_flows s) fid")
    case None
    then have "length (um_assign fid fl (um_assign fid fl' (m_active_flows s))) = Suc (length (m_active_flows s))" for fl fl'
      using um.size_assign_new [OF flow_invD(2) [OF assms(1)], of fid fl']
        um.size_assign_old [OF um_wf_assign [OF flow_invD(2) [OF assms(1)], of fid fl'], of fid fl]
      by (simp add: um_find_assign)
    with None assms(2-4) show ?thesis
      by (simp add: processIncomingPacket_def Let_def createFlow_def um_find_assign known counted_def
          add_traffic_one)
  next
    case (Some fl)
    then have "length (um_assign fid fl' (m_active_flows s)) = length (m_active_flows s)" for fl'
      using um.size_assign_old [OF flow_invD(2) [OF assms(1)], of fid fl'] by simp
    with Some assms(2-4) show ?thesis
      by (simp add: processIncomingPacket_def Let_def known counted_def add_traffic_one)
  qed
qed

lemma packet_ignored:
  "parsePacketFlowId p len = Inr fid \<Longrightarrow> \<not> counted fid \<Longrightarrow> processIncomingPacket now now' p len s = Normal s"
  by (auto simp: processIncomingPacket_def counted_def)

lemma sizes_of_parsed: "sizes_of fid es \<noteq> [] \<Longrightarrow> \<exists>p. parsePacketFlowId p (length p) = Inr fid"
  by (induction es rule: sizes_of.induct) (auto split: if_splits)

text \<open>Only an IPv4 packet has addresses other than zero.\<close>

lemma parse_counted_v4:
  assumes "parsePacketFlowId p len = Inr fid" and "src_ip fid \<noteq> 0"
  shows "ip_version fid = 4"
  using assms
  by (cases "len < 28"; cases "p = []"; cases "length p < 24")
    (auto simp: parsePacketFlowId_def sizeof_iphdr_def sizeof_udphdr_def read_byte_def
      read32_def read16_def Let_def zero_flow_id_def split: if_splits)

text \<open>While no flow is old enough to expire, a periodic call leaves the flow tables alone.\<close>

definition young :: "int \<Rightarrow> ('p::len, 'c::len, 'r::len) flow_state \<Rightarrow> bool" where
  "young a s \<longleftrightarrow> (\<forall>fid fl. um_find (m_active_flows s) fid = Some fl \<longrightarrow> a \<le> fl_last_activity fl)"

lemma young_not_expired:
  "young a s \<Longrightarrow> now \<le> a + uint (m_flow_timeout_sec s) \<Longrightarrow> \<not> flow_expired now s fid"
  by (cases "um_find (m_active_flows s) fid") (fastforce simp: young_def flow_expired_def)+

lemma cleanup_young: "(\<And>fid. \<not> flow_expired now s fid) \<Longrightarrow> cleanupExpiredFlows E now s = s"
proof -
  assume "\<And>fid. \<not> flow_expired now s fid"
  then have "cleanup_from E now ks s = s" for ks
    by (induction ks) simp_all
  then show ?thesis by (simp add: cleanupExpiredFlows_def)
qed

lemma tick_young:
  assumes "young a s" and "now' \<le> a + uint (m_flow_timeout_sec s)"
  shows "\<exists>s' s1. flow_doPeriodicTask E now now' s = Normal s' \<and> updateFlowStatistics E s = Normal s1 \<and>
    flow_io s' = (if 1 \<le> now - flow_last_stats_update s then flow_io s1 else flow_io s) \<and>
    m_active_flows s' = m_active_flows s \<and> m_flow_stats s' = m_flow_stats s \<and>
    m_flow_timeout_sec s' = m_flow_timeout_sec s \<and> m_max_flows s' = m_max_flows s \<and>
    flow_last_stats_update s' \<in> {now, flow_last_stats_update s}"
proof -
  define s1 where "s1 =
    (if 1 \<le> now - flow_last_stats_update s
     then (publish_flows E (um_keys (m_flow_stats s)) s)\<lparr>flow_last_stats_update := now\<rparr> else s)"
  have same: "m_active_flows s1 = m_active_flows s" "m_flow_timeout_sec s1 = m_flow_timeout_sec s"
    by (simp_all add: s1_def)
  have "\<not> flow_expired now' s1 fid" for fid
    using young_not_expired [OF assms, of fid]
    by (cases "um_find (m_active_flows s) fid") (simp_all add: flow_expired_def same)
  then have clean: "cleanupExpiredFlows E now' s1 = s1" by (rule cleanup_young)
  have "flow_doPeriodicTask E now now' s =
      (let s2 = (if 60 \<le> now - flow_last_cleanup s1
                 then (cleanupExpiredFlows E now' s1)\<lparr>flow_last_cleanup := now\<rparr> else s1)
       in Normal (if 300 \<le> now - flow_last_report s2 then s2\<lparr>flow_last_report := now\<rparr> else s2))"
    unfolding flow_doPeriodicTask_def updateFlowStatistics_fold s1_def
    by (cases "1 \<le> now - flow_last_stats_update s") (simp_all only: if_True if_False out_bind.simps)
  then show ?thesis
    unfolding clean Let_def by (simp add: updateFlowStatistics_fold) (simp add: s1_def)
qed

text \<open>
  Packets with room for their flows, between periodic calls that come too early for any of
  them to expire, count for every flow its packets and bytes.
\<close>

definition counts ::
  "traffic_event list \<Rightarrow> ('p::len, 'c::len, 'r::len) flow_state \<Rightarrow> ('p, 'c, 'r) flow_state \<Rightarrow> bool" where
  "counts es s s' \<longleftrightarrow>
     (\<forall>fid. um_find (m_flow_stats s') fid =
        (if counted fid \<and> sizes_of fid es \<noteq> []
         then Some (add_traffic (sizes_of fid es) (um_at zero_flow_stats (m_flow_stats s) fid))
         else um_find (m_flow_stats s) fid))"

lemma packet_frame:
  assumes "processIncomingPacket now now' p len s = Normal s'"
  shows "m_flow_timeout_sec s' = m_flow_timeout_sec s" and "flow_last_stats_update s' = flow_last_stats_update s"
    and "young a s \<Longrightarrow> a \<le> now' \<Longrightarrow> young a s'"
  using assms
  by (auto simp: processIncomingPacket_def Let_def createFlow_def young_def um_simps
      split: sum.splits if_splits option.splits)

lemma events_count:
  assumes "flow_inv E s" and "length (m_active_flows s) + packet_count es \<le> unat (m_max_flows s)"
    and "young a s" and "list_all (during a (a + uint (m_flow_timeout_sec s))) es"
  shows "\<exists>s'. flow_events E es s = Normal s' \<and> flow_inv E s' \<and> young a s' \<and> counts es s s' \<and>
    m_flow_timeout_sec s' = m_flow_timeout_sec s \<and>
    flow_last_stats_update s' \<in> insert (flow_last_stats_update s) (set (tick_times es))"
  using assms
proof (induction es arbitrary: s)
  case Nil
  then show ?case by (simp add: counts_def)
next
  case (Cons e es)
  show ?case
  proof (cases e)
    case (Ticks now now')
    with Cons.prems have "now' \<le> a + uint (m_flow_timeout_sec s)" by simp
    from tick_young [OF Cons.prems(3) this, of E now] obtain s1 where
      s1: "flow_doPeriodicTask E now now' s = Normal s1" "m_active_flows s1 = m_active_flows s"
        "m_flow_stats s1 = m_flow_stats s" "m_flow_timeout_sec s1 = m_flow_timeout_sec s"
        "m_max_flows s1 = m_max_flows s" "flow_last_stats_update s1 \<in> {now, flow_last_stats_update s}"
      by blast
    have "flow_inv E s1"
      using flow_doPeriodicTask_inv [OF Cons.prems(1), of now now'] s1(1) by simp
    with Cons.IH [of s1] Cons.prems s1 show ?thesis
      by (auto simp: Ticks young_def counts_def)
  next
    case (Arrives now now' p)
    obtain g where g: "parsePacketFlowId p (length p) = Inr g" using parse_in_bounds [of "length p" p] by auto
    show ?thesis
    proof (cases "counted g")
      case False
      have "flow_events E (e # es) s = flow_events E es s"
        by (simp add: Arrives packet_ignored [OF g False])
      moreover have "counts (e # es) s s' \<longleftrightarrow> counts es s s'" for s'
        using False g by (auto simp: Arrives counts_def)
      ultimately show ?thesis using Cons.IH [OF Cons.prems(1)] Cons.prems by (simp add: Arrives)
    next
      case True
      have room: "length (m_active_flows s) < unat (m_max_flows s)" using Cons.prems(2) by (simp add: Arrives)
      obtain s1 where s1: "processIncomingPacket now now' p (length p) s = Normal s1"
          "length (m_active_flows s1) \<le> Suc (length (m_active_flows s))" "m_max_flows s1 = m_max_flows s"
        and stats: "m_flow_stats s1 = um_modify zero_flow_stats g (add_traffic [length p])
          (if um_find (m_flow_stats s) g = None then um_assign g zero_flow_stats (m_flow_stats s)
           else m_flow_stats s)"
        using packet_counts [OF Cons.prems(1) g True room, of now now'] by blast
      note frame = packet_frame [OF s1(1)]
      have inv: "flow_inv E s1"
        using processIncomingPacket_inv [OF Cons.prems(1), of now now' p "length p"] s1(1) by simp
      have "young a s1" using frame(3) Cons.prems by (simp add: Arrives)
      with Cons.IH [OF inv] Cons.prems s1 frame(1,2) obtain s' where s':
        "flow_events E es s1 = Normal s'" "flow_inv E s'" "young a s'" "counts es s1 s'"
        "m_flow_timeout_sec s' = m_flow_timeout_sec s"
        "flow_last_stats_update s' \<in> insert (flow_last_stats_update s) (set (tick_times es))"
        by (auto simp: Arrives)
      have at1: "um_at zero_flow_stats (m_flow_stats s1) fid =
          (if fid = g then add_traffic [length p] (um_at zero_flow_stats (m_flow_stats s) g)
           else um_at zero_flow_stats (m_flow_stats s) fid)"
        and find1: "um_find (m_flow_stats s1) fid =
          (if fid = g then Some (add_traffic [length p] (um_at zero_flow_stats (m_flow_stats s) g))
           else um_find (m_flow_stats s) fid)" for fid
        unfolding stats by (auto simp: um_simps um_modify_def um_at_def)
      have "counts (e # es) s s'"
        using s'(4) True g
        by (auto simp: Arrives counts_def at1 find1 add_traffic_Cons [of "length p" "sizes_of g es"])
      with s' s1(1) show ?thesis by (simp add: Arrives)
    qed
  qed
qed

lemma flow_ex_nonzero: "src_ip flow_ex_id \<noteq> 0" "dst_ip flow_ex_id \<noteq> 0" "ip_version flow_ex_id = 4"
  by (simp_all add: flow_ex_id_def)

lemma flow_ex_stamp: "flow_last_cleanup flow_ex = 0"
  by (simp add: flow_ex_def createFlow_def UEFlowManager_def)

lemma empty_packet: "parsePacketFlowId [] 0 = Inr zero_flow_id" "zero_flow_id \<noteq> flow_ex_id"
  by (simp_all add: parsePacketFlowId_def sizeof_iphdr_def zero_flow_id_def flow_ex_id_def)

text \<open>What the last of several periodic calls publishes.\<close>

lemma published_of_traffic:
  fixes es :: "traffic_event list"
  assumes "packet_count es \<le> 1000000" and "list_all (during a (a + 300)) es"
    and "\<forall>t \<in> set (0 # tick_times es). t + 1 \<le> now" and "now' \<le> a + 300"
    and "src_ip fid \<noteq> 0" and "dst_ip fid \<noteq> 0" and "ip_version fid = 4"
  shows "\<exists>s. flow_events E (es @ [Ticks now now']) (UEFlowManager :: ('p::len, 'c::len, 'r::len) flow_state) = Normal s \<and>
    published (flow_io s) STATE_DB (stats_key E fid) =
      (if sizes_of fid es = [] then None
       else Some (flow_stats_fvs (add_traffic (sizes_of fid es) (zero_flow_stats :: ('c, 'r) UEFlowStats))))"
proof -
  let ?s0 = "UEFlowManager :: ('p, 'c, 'r) flow_state"
  have init: "m_active_flows ?s0 = []" "m_flow_stats ?s0 = []" "unat (m_max_flows ?s0) = 1000000"
      "uint (m_flow_timeout_sec ?s0) = 300" "flow_last_stats_update ?s0 = 0"
    by (simp_all add: UEFlowManager_def)
  obtain s1 :: "('p, 'c, 'r) flow_state" where run: "flow_events E es ?s0 = Normal s1"
    and inv: "flow_inv E s1" and young: "young a s1" and counts: "counts es ?s0 s1"
    and timeout: "uint (m_flow_timeout_sec s1) = 300"
    and stamp: "flow_last_stats_update s1 \<in> set (0 # tick_times es)"
    using events_count [of E ?s0 es a] flow_inv_init [of E, where ?'a = 'p and ?'b = 'c and ?'c = 'r] assms(1,2)
    by (auto simp: init young_def)
  have stats: "um_find (m_flow_stats s1) g =
      (if counted g \<and> sizes_of g es \<noteq> [] then Some (add_traffic (sizes_of g es) zero_flow_stats) else None)" for g
    using counts by (simp add: counts_def init um_at_def)
  have "ip_version g = 4" if "um_find (m_flow_stats s1) g \<noteq> None" for g
    using that sizes_of_parsed [of g es] by (auto simp: stats counted_def parse_counted_v4 split: if_splits)
  then obtain s2 where s2: "updateFlowStatistics E s1 = Normal s2"
      "published (flow_io s2) STATE_DB (stats_key E fid) = map_option flow_stats_fvs (um_find (m_flow_stats s1) fid)"
    using statistics_mirror [OF inv _ assms(7)] by blast
  have "now' \<le> a + uint (m_flow_timeout_sec s1)" and "1 \<le> now - flow_last_stats_update s1"
    using assms(3,4) timeout stamp by auto
  with tick_young [OF young, of now' E now] s2(1) obtain s3 where
    "flow_doPeriodicTask E now now' s1 = Normal s3" "flow_io s3 = flow_io s2" by auto
  then show ?thesis using run s2(2) assms(5,6) by (simp add: flow_events_append stats counted_def)
qed

section \<open>Idle flows\<close>

text \<open>An event that is no packet of the flow, with a clock that does not run backwards.\<close>

fun not_of :: "UEFlowId \<Rightarrow> traffic_event \<Rightarrow> bool" where
  "not_of fid (Arrives now now' p) \<longleftrightarrow> parsePacketFlowId p (length p) \<noteq> Inr fid"
| "not_of fid (Ticks now now') \<longleftrightarrow> now \<le> now'"

lemma packet_of_other:
  assumes "parsePacketFlowId p (length p) \<noteq> Inr fid"
  shows "\<exists>s'. processIncomingPacket now now' p (length p) s = Normal s' \<and>
    um_find (m_active_flows s') fid = um_find (m_active_flows s) fid \<and>
    m_flow_timeout_sec s' = m_flow_timeout_sec s \<and> flow_last_cleanup s' = flow_last_cleanup s"
proof -
  obtain g where g: "parsePacketFlowId p (length p) = Inr g" using parse_in_bounds [of "length p" p] by auto
  with assms have "g \<noteq> fid" by auto
  with g show ?thesis
    by (auto simp: processIncomingPacket_def Let_def createFlow_def um_simps split: option.split)
qed

text \<open>
  What is kept while no packet of a flow arrives: the flow is as it was, and either no clean-up
  has run since \<open>l\<close> or the last one found it not yet expired.
\<close>

definition lingers :: "UEFlowId \<Rightarrow> int \<Rightarrow> int \<Rightarrow> 32 word \<Rightarrow> ('p::len, 'c::len, 'r::len) flow_state \<Rightarrow> bool" where
  "lingers fid a l w s \<longleftrightarrow>
     m_flow_timeout_sec s = w \<and>
     (case um_find (m_active_flows s) fid of
        None \<Rightarrow> True
      | Some fl \<Rightarrow> fl_last_activity fl = a \<and> (flow_last_cleanup s \<le> l \<or> flow_last_cleanup s - a \<le> uint w))"

lemma event_lingers:
  assumes "not_of fid e" and "lingers fid a l w s"
  shows "\<exists>s'. flow_event E e s = Normal s' \<and> lingers fid a l w s' \<and>
    (um_find (m_active_flows s) fid = None \<longrightarrow> um_find (m_active_flows s') fid = None) \<and>
    flow_last_cleanup s' = (case e of Arrives _ _ _ \<Rightarrow> flow_last_cleanup s
      | Ticks now _ \<Rightarrow> if 60 \<le> now - flow_last_cleanup s then now else flow_last_cleanup s)"
proof (cases e)
  case (Arrives now now' p)
  with assms packet_of_other [of p fid now now' s] show ?thesis
    by (cases "um_find (m_active_flows s) fid") (auto simp: lingers_def)
next
  case (Ticks now now')
  obtain s' where s': "flow_doPeriodicTask E now now' s = Normal s'"
      "um_find (m_active_flows s') fid =
        (if 60 \<le> now - flow_last_cleanup s \<and> flow_expired now' s fid then None
         else um_find (m_active_flows s) fid)"
      "m_flow_timeout_sec s' = m_flow_timeout_sec s"
    using flow_periodic_flow [of E now now' s fid] by blast
  have "flow_last_cleanup s' = (if 60 \<le> now - flow_last_cleanup s then now else flow_last_cleanup s)"
    using flow_periodic_stamps(2) [OF s'(1)] .
  with s' assms show ?thesis
    by (cases "um_find (m_active_flows s) fid")
      (auto simp: Ticks lingers_def flow_expired_def)
qed

lemma events_gone:
  assumes "list_all (not_of fid) es" and "um_find (m_active_flows s) fid = None"
  shows "\<exists>s'. flow_events E es s = Normal s' \<and> um_find (m_active_flows s') fid = None"
  using assms
proof (induction es arbitrary: s)
  case Nil
  then show ?case by simp
next
  case (Cons e es)
  have "lingers fid 0 0 (m_flow_timeout_sec s) s" using Cons.prems by (simp add: lingers_def)
  with event_lingers [of fid e 0 0 "m_flow_timeout_sec s" s E] Cons show ?case by auto
qed

lemma events_expire:
  assumes "list_all (not_of fid) es" and "lingers fid a l w s"
    and "sorted (flow_last_cleanup s # tick_times es)"
    and "t \<in> set (tick_times es)" and "l + 60 \<le> t" and "a + uint w + 60 \<le> t"
  shows "\<exists>s'. flow_events E es s = Normal s' \<and> um_find (m_active_flows s') fid = None"
  using assms
proof (induction es arbitrary: s)
  case Nil
  then show ?case by simp
next
  case (Cons e es)
  then obtain s1 where s1: "flow_event E e s = Normal s1" "lingers fid a l w s1"
      "flow_last_cleanup s1 = (case e of Arrives _ _ _ \<Rightarrow> flow_last_cleanup s
        | Ticks now _ \<Rightarrow> if 60 \<le> now - flow_last_cleanup s then now else flow_last_cleanup s)"
    using event_lingers [of fid e a l w s E] by auto
  have sorted: "sorted (flow_last_cleanup s1 # tick_times es)"
    using Cons.prems(3) s1(3) by (cases e) auto
  show ?case
  proof (cases "t \<in> set (tick_times es)")
    case True
    with Cons.IH [OF _ s1(2) sorted] Cons.prems s1(1) show ?thesis by simp
  next
    case False
    with Cons.prems(4) obtain now' where e: "e = Ticks t now'" by (cases e) auto
    have "um_find (m_active_flows s1) fid = None"
      using s1(2,3) Cons.prems(3,5,6) by (auto simp: lingers_def e split: option.splits if_splits)
    with events_gone [of fid es s1 E] Cons.prems(1) s1(1) show ?thesis by simp
  qed
qed

section \<open>Properties\<close>

text \<open>
  Traffic is accounted exactly, flow by flow and whatever the mix of packets and periodic
  calls: as long as the flow table has room and no flow is old enough to expire, the
  counters of a flow with non-zero addresses have grown by the number and the total size of
  the packets that parse to it, and a flow of which no packet arrived has not changed.
\<close>

theorem packet_accounting:
  assumes "flow_reachable E s" and "length (m_active_flows s) + packet_count es \<le> unat (m_max_flows s)"
    and "young a s" and "list_all (during a (a + uint (m_flow_timeout_sec s))) es"
    and "src_ip fid \<noteq> 0" and "dst_ip fid \<noteq> 0"
  shows "\<exists>s'. flow_events E es s = Normal s' \<and>
    um_find (m_flow_stats s') fid =
      (if sizes_of fid es = [] then um_find (m_flow_stats s) fid
       else Some (add_traffic (sizes_of fid es) (um_at zero_flow_stats (m_flow_stats s) fid)))"
  using events_count [OF flow_reachable_flow_inv [OF assms(1)] assms(2-4)] assms(5,6)
  by (auto simp: counts_def counted_def)

theorem packet_accounting_witness:
  "\<exists>s'. flow_events flow_ex_env [Arrives 1 1 (uet_packet_bytes True packet_ex), Ticks 2 2, Arrives 2 2 [],
      Arrives 3 3 (uet_packet_bytes True packet_ex)] (UEFlowManager :: (32, 64, 32) flow_state) = Normal s' \<and>
    um_find (m_flow_stats s') flow_ex_id = Some (add_traffic [80, 80] zero_flow_stats)"
  using packet_accounting [OF flow_reachable.init [of flow_ex_env],
      where 'a = 32 and 'b = 64 and 'c = 32 and a = 0, of "[Arrives 1 1 (uet_packet_bytes True packet_ex), Ticks 2 2,
        Arrives 2 2 [], Arrives 3 3 (uet_packet_bytes True packet_ex)]" flow_ex_id]
  by (simp add: UEFlowManager_def packet_ex_flow flow_ex_nonzero um_at_def empty_packet young_def)

text \<open>
  Property C2: from the bytes on the wire to the database: a manager that starts up and then
  serves up to a million packets and any number of periodic calls within one flow timeout of
  the first packet leaves, after a periodic call a second or more after the others, under
  the key of every IPv4 flow exactly the number and total size of the packets that parse to
  it, and nothing under the key of a flow of which no packet arrived.
\<close>

theorem traffic_published:
  fixes es :: "traffic_event list"
  assumes "packet_count es \<le> 1000000" and "list_all (during a (a + 300)) es"
    and "\<forall>t \<in> set (0 # tick_times es). t + 1 \<le> now" and "now' \<le> a + 300"
    and "src_ip fid \<noteq> 0" and "dst_ip fid \<noteq> 0" and "ip_version fid = 4"
  shows "\<exists>s. flow_events E (es @ [Ticks now now']) (UEFlowManager :: ('p::len, 'c::len, 'r::len) flow_state) = Normal s \<and>
    published (flow_io s) STATE_DB (stats_key E fid) =
      (if sizes_of fid es = [] then None
       else Some (flow_stats_fvs (add_traffic (sizes_of fid es) (zero_flow_stats :: ('c, 'r) UEFlowStats))))"
  by (rule published_of_traffic [OF assms])

theorem traffic_published_witness:
  "\<exists>s. flow_events flow_ex_env ([Arrives 100 100 (uet_packet_bytes True packet_ex), Ticks 101 101,
        Arrives 103 103 (uet_packet_bytes True packet_ex)] @ [Ticks 104 104])
      (UEFlowManager :: (32, 64, 32) flow_state) = Normal s \<and>
    published (flow_io s) STATE_DB (stats_key flow_ex_env flow_ex_id) =
      Some (flow_stats_fvs (add_traffic [80, 80] (zero_flow_stats :: (64, 32) UEFlowStats)))"
  using traffic_published [of "[Arrives 100 100 (uet_packet_bytes True packet_ex), Ticks 101 101,
      Arrives 103 103 (uet_packet_bytes True packet_ex)]" 100 104 104 flow_ex_id flow_ex_env,
      where 'p = 32 and 'c = 64 and 'r = 32]
  by (simp add: packet_ex_flow flow_ex_nonzero)

text \<open>
  Property C16: an idle flow disappears. In a run of packets of other flows and of periodic calls
  on a clock that does not run backwards, with no configuration change and no other operation
  in between, a flow is out of the table once a periodic call has come at least the timeout
  and a minute after its last activity and a minute after the last clean-up before the run.
\<close>

theorem idle_flow_expires:
  assumes "um_find (m_active_flows s) fid = Some fl" and "list_all (not_of fid) es"
    and "sorted (flow_last_cleanup s # tick_times es)" and "t \<in> set (tick_times es)"
    and "flow_last_cleanup s + 60 \<le> t" and "fl_last_activity fl + uint (m_flow_timeout_sec s) + 60 \<le> t"
  shows "\<exists>s'. flow_events E es s = Normal s' \<and> um_find (m_active_flows s') fid = None"
proof (rule events_expire [OF assms(2) _ assms(3-6)])
  show "lingers fid (fl_last_activity fl) (flow_last_cleanup s) (m_flow_timeout_sec s) s"
    by (simp add: lingers_def assms(1))
qed

theorem idle_flow_expires_witness:
  "\<exists>s'. flow_events flow_ex_env [Ticks 390 391, Arrives 395 395 [], Ticks 449 450, Ticks 460 461] flow_ex = Normal s' \<and>
    um_find (m_active_flows s') flow_ex_id = None"
  by (rule idle_flow_expires [where t = 460 and fl = "new_flow 100 flow_ex_id RELIABLE_ORDERED_DELIVERY 65536"])
    (simp_all add: flow_ex_flows um_find_def empty_packet new_flow_def flow_ex_stamp)

end
