(* ===== verification/Daemon_Runs.thy ===== *)
theory Daemon_Runs
  imports Transport_Daemon Traffic
begin

text \<open>
  The transport daemon as the composition of its two managers: its runs are the runs of the
  managers on their own parts of the events, its exit code tells how the run ended, and the
  loop itself gives the flow manager nothing to do.
\<close>

section \<open>The managers' parts\<close>

fun out_fold :: "('e \<Rightarrow> 's \<Rightarrow> 's outcome) \<Rightarrow> 'e list \<Rightarrow> 's \<Rightarrow> 's outcome" where
  "out_fold f [] s = Normal s"
| "out_fold f (e # es) s = out_bind (f e s) (out_fold f es)"

definition flow_part ::
  "('p::len, 'c::len, 'r::len, 'd::len, 'm) daemon_env \<Rightarrow> 'm select_result \<Rightarrow> ('p, 'c, 'r) flow_state \<Rightarrow>
   ('p, 'c, 'r) flow_state outcome" where
  "flow_part E r s =
     (case r of
        Object_flow m \<Rightarrow> readData_flow E m s
      | Timeout now now' now_ms reading \<Rightarrow> flow_doPeriodicTask (de_flow E) now now' s
      | _ \<Rightarrow> Normal s)"

definition congestion_part ::
  "('p::len, 'c::len, 'r::len, 'd::len, 'm) daemon_env \<Rightarrow> 'm select_result \<Rightarrow> 'd congestion_state \<Rightarrow>
   'd congestion_state outcome" where
  "congestion_part E r s =
     (case r of
        Object_congestion m \<Rightarrow> readData_congestion E m s
      | Timeout now now' now_ms reading \<Rightarrow> congestion_doPeriodicTask (de_congestion E) reading now_ms s
      | _ \<Rightarrow> Normal s)"

fun selects :: "'m daemon_event list \<Rightarrow> 'm select_result list" where
  "selects [] = []"
| "selects (Signalled # es) = selects es"
| "selects (Select_returned r # es) = r # selects es"

lemma map_outcome_Normal_iff: "map_outcome f r = Normal t \<longleftrightarrow> (\<exists>s. r = Normal s \<and> t = f s)"
  by (cases r) auto

text \<open>A step of the loop succeeds exactly when both managers' parts of it do.\<close>

lemma daemon_eqI:
  "g_running d = g_running d' \<Longrightarrow> flow_manager d = flow_manager d' \<Longrightarrow>
   congestion_manager d = congestion_manager d' \<Longrightarrow> d = (d' :: ('p::len, 'c::len, 'r::len, 'd::len) daemon)"
  by (cases d; cases d') simp

lemma daemon_step_parts:
  "daemon_step E r d = Normal d' \<longleftrightarrow>
     flow_part E r (flow_manager d) = Normal (flow_manager d') \<and>
     congestion_part E r (congestion_manager d) = Normal (congestion_manager d') \<and>
     g_running d' = g_running d"
  by (cases r)
    (auto simp: daemon_step_def flow_part_def congestion_part_def on_flow_def on_congestion_def
      map_outcome_Normal_iff out_bind_Normal_iff intro!: daemon_eqI)

lemma daemon_step_joins:
  "flow_part E r (flow_manager d) = Normal m \<Longrightarrow> congestion_part E r (congestion_manager d) = Normal k \<Longrightarrow>
   daemon_step E r d = Normal (d\<lparr>flow_manager := m, congestion_manager := k\<rparr>)"
  by (simp add: daemon_step_parts)

lemma daemon_run_parts:
  "daemon_main E es d0 = Running d \<longleftrightarrow>
     g_running d0 \<and> g_running d \<and> Signalled \<notin> set es \<and>
     out_fold (flow_part E) (selects es) (flow_manager d0) = Normal (flow_manager d) \<and>
     out_fold (congestion_part E) (selects es) (congestion_manager d0) = Normal (congestion_manager d)"
proof (induction es arbitrary: d0)
  case Nil
  then show ?case by (auto intro: daemon_eqI)
next
  case (Cons e es)
  show ?case
  proof (cases e)
    case Signalled
    then show ?thesis by (simp add: daemon_stopped)
  next
    case (Select_returned r)
    show ?thesis
    proof (cases "daemon_step E r d0")
      case (Normal d1)
      then show ?thesis
        using Cons.IH [of d1] daemon_step_parts [of E r d0 d1] by (auto simp: Select_returned)
    qed (use daemon_step_joins [of E r d0] in \<open>auto simp: Select_returned out_bind_Normal_iff\<close>)
  qed
qed

lemma transport_main_runningI:
  "Signalled \<notin> set es \<Longrightarrow> out_fold (flow_part E) (selects es) UEFlowManager = Normal m \<Longrightarrow>
   out_fold (congestion_part E) (selects es) UECongestionManager = Normal k \<Longrightarrow>
   transport_main E False Constructed es =
     Running \<lparr>g_running = True, flow_manager = m, congestion_manager = k\<rparr>"
  by (simp add: transport_main_def daemon_start_def daemon_run_parts)

section \<open>How a run ends\<close>

lemma daemon_main_append:
  "daemon_main E pre d0 = Running d \<Longrightarrow> daemon_main E (pre @ es) d0 = daemon_main E es d"
proof (induction pre arbitrary: d0)
  case Nil
  then show ?case by (simp split: if_splits)
next
  case (Cons e pre)
  then show ?case
    by (cases e) (auto simp: daemon_stopped split: if_splits outcome.splits)
qed

text \<open>The event at which a loop that is not running any more left it.\<close>

fun leaves ::
  "('p::len, 'c::len, 'r::len, 'd::len, 'm) daemon_env \<Rightarrow> 'm daemon_event \<Rightarrow> ('p, 'c, 'r, 'd) daemon \<Rightarrow>
   ('p, 'c, 'r, 'd) daemon exit_state \<Rightarrow> bool" where
  "leaves E Signalled d x \<longleftrightarrow> x = Exited 0"
| "leaves E (Select_returned r) d x \<longleftrightarrow>
     (case daemon_step E r d of
        Normal d' \<Rightarrow> False
      | Throws e d' \<Rightarrow> x = Exited 1
      | Undefined u \<Rightarrow> x = Crashed u)"

fun stopped :: "'s exit_state \<Rightarrow> bool" where
  "stopped (Running d) \<longleftrightarrow> False"
| "stopped _ \<longleftrightarrow> True"

lemma daemon_step_running: "daemon_step E r d = Normal d' \<Longrightarrow> g_running d' = g_running d"
  by (simp add: daemon_step_parts)

lemma daemon_main_leaves:
  assumes "g_running d0" and "stopped x"
  shows "daemon_main E es d0 = x \<longleftrightarrow>
    (\<exists>pre e post d. es = pre @ e # post \<and> daemon_main E pre d0 = Running d \<and> leaves E e d x)"
    (is "?L \<longleftrightarrow> ?R")
proof
  assume ?L
  then show ?R
    using assms(1)
  proof (induction es arbitrary: d0)
    case Nil
    with assms(2) show ?case by auto
  next
    case (Cons e es)
    show ?case
    proof (cases "\<exists>r d1. e = Select_returned r \<and> daemon_step E r d0 = Normal d1")
      case True
      then obtain r d1 where e: "e = Select_returned r" "daemon_step E r d0 = Normal d1" by blast
      with Cons.prems have "daemon_main E es d1 = x" and "g_running d1"
        by (simp_all add: daemon_step_running)
      from Cons.IH [OF this] obtain pre f post d where
        "es = pre @ f # post" "daemon_main E pre d1 = Running d" "leaves E f d x" by blast
      with e Cons.prems(2) show ?thesis
        by (intro exI [of _ "e # pre"] exI [of _ f] exI [of _ post] exI [of _ d]) simp
    next
      case False
      with Cons.prems have "leaves E e d0 x"
        by (cases e) (auto simp: daemon_stopped split: outcome.splits)
      with Cons.prems(2) show ?thesis
        by (intro exI [of _ "[]"] exI [of _ e] exI [of _ es] exI [of _ d0]) simp
    qed
  qed
next
  assume ?R
  then obtain pre e post d where es: "es = pre @ e # post" and run: "daemon_main E pre d0 = Running d"
    and "leaves E e d x" by blast
  moreover have "g_running d" using run by (simp add: daemon_run_parts)
  ultimately show ?L
    by (cases e) (auto simp: daemon_main_append daemon_stopped split: outcome.splits)
qed

section \<open>What the loop itself does\<close>

lemma daemon_main_snoc:
  assumes "daemon_main E (es @ [e]) d0 = Running d"
  shows "\<exists>r d1. e = Select_returned r \<and> daemon_main E es d0 = Running d1 \<and> daemon_step E r d1 = Normal d"
  using assms
proof (induction es arbitrary: d0)
  case Nil
  then show ?case
    by (cases e) (auto simp: daemon_stopped split: if_splits outcome.splits)
next
  case (Cons f es)
  show ?case
  proof (cases f)
    case Signalled
    with Cons.prems show ?thesis by (simp add: daemon_stopped)
  next
    case (Select_returned r)
    with Cons.prems obtain d1 where "g_running d0" "daemon_step E r d0 = Normal d1" "daemon_main E (es @ [e]) d1 = Running d"
      by (auto split: if_splits outcome.splits)
    with Cons.IH [of d1] Select_returned show ?thesis by simp
  qed
qed

text \<open>A flow manager that is as it was constructed, but for the times its jobs last ran.\<close>

definition untouched :: "('p::len, 'c::len, 'r::len) flow_state \<Rightarrow> bool" where
  "untouched s \<longleftrightarrow>
     s = UEFlowManager\<lparr>flow_last_stats_update := flow_last_stats_update s,
       flow_last_cleanup := flow_last_cleanup s, flow_last_report := flow_last_report s\<rparr>"

lemma untouched_start: "untouched UEFlowManager"
  by (simp add: untouched_def UEFlowManager_def)

lemma untouched_tick:
  assumes "untouched s" and "flow_doPeriodicTask E now now' s = Normal s'"
  shows "untouched s'"
proof -
  define a b c where "a = flow_last_stats_update s" and "b = flow_last_cleanup s" and "c = flow_last_report s"
  have s: "s = UEFlowManager\<lparr>flow_last_stats_update := a, flow_last_cleanup := b, flow_last_report := c\<rparr>"
    using assms(1) by (simp add: untouched_def a_def b_def c_def)
  show ?thesis
    using assms(2)
    by (cases "1 \<le> now - a"; cases "60 \<le> now - b"; cases "300 \<le> now - c")
      (auto simp: s flow_doPeriodicTask_def Let_def updateFlowStatistics_def range_for_empty
        cleanupExpiredFlows_def untouched_def UEFlowManager_def)
qed

section \<open>Properties\<close>

text \<open>
  Property C8: the daemon is nothing but its two managers side by side. It is in its loop in
  some state after some events exactly when construction succeeded, no signal has arrived,
  and each manager alone, started fresh and served its own part of the events in the same
  order, returns every time and ends in its part of that state: neither manager sees the
  other, but the failure of one ends both.
\<close>

theorem daemon_decomposes:
  "transport_main E signalled start es = Running d \<longleftrightarrow>
     start = Constructed \<and> \<not> signalled \<and> Signalled \<notin> set es \<and> g_running d \<and>
     out_fold (flow_part E) (selects es) UEFlowManager = Normal (flow_manager d) \<and>
     out_fold (congestion_part E) (selects es) UECongestionManager = Normal (congestion_manager d)"
  by (cases start) (auto simp: transport_main_def daemon_run_parts daemon_start_def)

text \<open>
  Property C17: the daemon ends only as \<open>main\<close> says: with code 1 if construction threw, with
  code 0 if a signal came before the loop, and otherwise at one event of the loop, up to
  which it ran: with code 0 at a signal, with code 1 at an event whose handling let an
  exception escape, and by undefined behaviour at an event whose handling has it.
\<close>

theorem daemon_exits:
  assumes "stopped x"
  shows "transport_main E signalled start es = x \<longleftrightarrow>
    (if start = Construction_throws then x = Exited 1
     else if signalled then x = Exited 0
     else \<exists>pre e post d. es = pre @ e # post \<and> transport_main E False Constructed pre = Running d \<and>
       leaves E e d x)"
  using daemon_main_leaves [of "daemon_start\<lparr>g_running := True\<rparr>" x E es] assms
  by (cases start) (auto simp: transport_main_def daemon_stopped)

theorem daemon_exits_witness:
  "transport_main daemon_ex_env False Constructed
     [Select_returned (Object_flow (0, 0, [])), Signalled, Select_returned Select_other] = Exited 0"
proof -
  let ?pre = "[Select_returned (Object_flow (0, 0, []))]"
  have "transport_main daemon_ex_env False Constructed ?pre = Running daemon_start"
    by (simp add: transport_main_def daemon_start_def daemon_step_def on_flow_def daemon_ex_env_def
        processIncomingPacket_def parsePacketFlowId_def sizeof_iphdr_def zero_flow_id_def)
  moreover have "leaves daemon_ex_env Signalled daemon_start (Exited 0)" by simp
  ultimately have "\<exists>pre e post d. ?pre @ [Signalled, Select_returned Select_other] = pre @ e # post \<and>
      transport_main daemon_ex_env False Constructed pre = Running d \<and> leaves daemon_ex_env e d (Exited 0)"
    by blast
  then show ?thesis
    using daemon_exits [of "Exited 0" daemon_ex_env False Constructed
        "[Select_returned (Object_flow (0, 0, [])), Signalled, Select_returned Select_other]"]
    by simp
qed

text \<open>
  Property C30: the loop of the daemon gives its flow manager no work. It calls \<open>readData\<close> and
  the periodic tasks, and neither \<open>doTask\<close> nor \<open>processIncomingPacket\<close>: whatever events it has
  seen, either some \<open>readData\<close> of the run changed the flow manager by itself, or the manager
  still is as it was constructed but for the times its jobs last ran: no flow, default
  configuration, nothing published.
\<close>

theorem daemon_feeds_nothing:
  assumes "transport_main E signalled start es = Running d"
  shows "(\<exists>pre m post d'. es = pre @ Select_returned (Object_flow m) # post \<and>
      transport_main E signalled start pre = Running d' \<and>
      readData_flow E m (flow_manager d') \<noteq> Normal (flow_manager d')) \<or>
    (\<exists>a b c. flow_manager d =
      UEFlowManager\<lparr>flow_last_stats_update := a, flow_last_cleanup := b, flow_last_report := c\<rparr>)"
proof -
  define d0 :: "('a, 'b, 'c, 'd) daemon" where "d0 = daemon_start\<lparr>g_running := \<not> signalled\<rparr>"
  have main: "transport_main E signalled start fs = daemon_main E fs d0" for fs
    using assms by (cases start) (simp_all add: transport_main_def d0_def)
  have "(\<exists>pre m post d'. es = pre @ Select_returned (Object_flow m) # post \<and> daemon_main E pre d0 = Running d' \<and>
      readData_flow E m (flow_manager d') \<noteq> Normal (flow_manager d')) \<or> untouched (flow_manager d)"
    using assms [unfolded main]
  proof (induction es arbitrary: d rule: rev_induct)
    case Nil
    then have "flow_manager d = UEFlowManager" by (auto simp: d0_def daemon_start_def split: if_splits)
    then show ?case by (simp add: untouched_start)
  next
    case (snoc e es)
    obtain r d1 where e: "e = Select_returned r" and run: "daemon_main E es d0 = Running d1"
        and step: "daemon_step E r d1 = Normal d"
      using daemon_main_snoc [OF snoc.prems] by blast
    note part = step [unfolded daemon_step_parts, THEN conjunct1]
    show ?case
    proof (cases "untouched (flow_manager d1)")
      case False
      with snoc.IH [OF run] obtain pre m post d' where "es = pre @ Select_returned (Object_flow m) # post"
        "daemon_main E pre d0 = Running d'" "readData_flow E m (flow_manager d') \<noteq> Normal (flow_manager d')" by blast
      then have "\<exists>pre m post d'. es @ [e] = pre @ Select_returned (Object_flow m) # post \<and> daemon_main E pre d0 = Running d' \<and>
          readData_flow E m (flow_manager d') \<noteq> Normal (flow_manager d')"
        by (intro exI [of _ pre] exI [of _ m] exI [of _ "post @ [e]"] exI [of _ d']) simp
      then show ?thesis ..
    next
      case True
      show ?thesis
      proof (cases r)
        case (Object_flow m)
        show ?thesis
        proof (cases "readData_flow E m (flow_manager d1) = Normal (flow_manager d1)")
          case True
          with part Object_flow \<open>untouched (flow_manager d1)\<close> show ?thesis by (simp add: flow_part_def)
        next
          case False
          with run e Object_flow show ?thesis by blast
        qed
      qed (use part True untouched_tick [OF True] in \<open>auto simp: flow_part_def\<close>)
    qed
  qed
  then show ?thesis unfolding main untouched_def by blast
qed

text \<open>An environment whose \<open>readData\<close> only takes the data from its source.\<close>

definition daemon_ex_env2 :: "(32, 64, 32, 64, int \<times> int \<times> 8 word list) daemon_env" where
  "daemon_ex_env2 = daemon_ex_env\<lparr>readData_flow := \<lambda>_. Normal\<rparr>"

theorem daemon_feeds_nothing_witness:
  "\<exists>d. transport_main daemon_ex_env2 False Constructed
      [Select_returned (Object_flow (100, 100, uet_packet_bytes True packet_ex)), Select_returned Select_other] = Running d \<and>
    m_active_flows (flow_manager d) = [] \<and> flow_io (flow_manager d) = []"
proof -
  let ?es = "[Select_returned (Object_flow (100, 100, uet_packet_bytes True packet_ex)), Select_returned Select_other]"
  have reads: "readData_flow daemon_ex_env2 m s = Normal s" for m s by (simp add: daemon_ex_env2_def)
  have "transport_main daemon_ex_env2 False Constructed ?es =
      Running \<lparr>g_running = True, flow_manager = UEFlowManager, congestion_manager = UECongestionManager\<rparr>"
    by (intro transport_main_runningI) (simp_all add: flow_part_def congestion_part_def reads)
  from this daemon_feeds_nothing [OF this] show ?thesis
    by (auto simp: reads UEFlowManager_def)
qed

end
