(* ===== verification/Flow_Spec.thy ===== *)
theory Flow_Spec
  imports Flow_Manager
begin

text \<open>
  The abstract specification of the flow table of \<open>ue_flow_manager.cpp\<close>: one partial map from
  flow identifiers to the state and statistics of a flow, and what is published in the state
  database, without hash maps, iteration orders and traces. Every operation of the manager
  that changes flows is the corresponding operation on the specification.
\<close>

section \<open>The specification\<close>

record (overloaded) ('p, 'c, 'r) flow_spec =
  sp_flows :: "UEFlowId \<Rightarrow> ('p::len UEFlowState \<times> ('c::len, 'r::len) UEFlowStats) option"
  sp_published :: "string \<Rightarrow> fvs option"
  sp_mode :: UEFlowMode
  sp_window :: "32 word"
  sp_limit :: nat
  sp_timeout :: int

definition spec_create ::
  "int \<Rightarrow> UEFlowId \<Rightarrow> UEFlowMode \<Rightarrow> ('p::len, 'c::len, 'r::len) flow_spec \<Rightarrow> ('p, 'c, 'r) flow_spec" where
  "spec_create now fid mode a =
     (if sp_limit a \<le> card (dom (sp_flows a)) \<or> fid \<in> dom (sp_flows a) then a
      else a\<lparr>sp_flows := (sp_flows a)(fid \<mapsto> (new_flow now fid mode (sp_window a), zero_flow_stats))\<rparr>)"

definition spec_adjust ::
  "UEFlowId \<Rightarrow> ('p UEFlowState \<Rightarrow> 'p UEFlowState) \<Rightarrow> (('c, 'r) UEFlowStats \<Rightarrow> ('c, 'r) UEFlowStats) \<Rightarrow>
   ('p::len, 'c::len, 'r::len) flow_spec \<Rightarrow> ('p, 'c, 'r) flow_spec" where
  "spec_adjust fid f g a =
     a\<lparr>sp_flows := (sp_flows a)(fid := map_option (map_prod f g) (sp_flows a fid))\<rparr>"

definition spec_packet ::
  "int \<Rightarrow> int \<Rightarrow> UEFlowId \<Rightarrow> nat \<Rightarrow> ('p::len, 'c::len, 'r::len) flow_spec \<Rightarrow> ('p, 'c, 'r) flow_spec" where
  "spec_packet now now' fid len a =
     (if src_ip fid = 0 \<or> dst_ip fid = 0 then a
      else spec_adjust fid (\<lambda>fl. fl\<lparr>fl_last_activity := now'\<rparr>)
        (\<lambda>st. st\<lparr>packets_received := packets_received st + 1, bytes_received := bytes_received st + of_nat len\<rparr>)
        (spec_create now fid (sp_mode a) a))"

definition spec_remove ::
  "flow_env \<Rightarrow> UEFlowId set \<Rightarrow> ('p::len, 'c::len, 'r::len) flow_spec \<Rightarrow> ('p, 'c, 'r) flow_spec" where
  "spec_remove E gone a =
     a\<lparr>sp_flows := sp_flows a |` (- gone), sp_published := sp_published a |` (- (stats_key E ` gone))\<rparr>"

definition spec_expire ::
  "flow_env \<Rightarrow> int \<Rightarrow> ('p::len, 'c::len, 'r::len) flow_spec \<Rightarrow> ('p, 'c, 'r) flow_spec" where
  "spec_expire E now a =
     spec_remove E {fid. \<exists>fl st. sp_flows a fid = Some (fl, st) \<and> sp_timeout a < now - fl_last_activity fl} a"

section \<open>Abstraction\<close>

definition flow_pair ::
  "('p::len, 'c::len, 'r::len) flow_state \<Rightarrow> UEFlowId \<Rightarrow> ('p UEFlowState \<times> ('c, 'r) UEFlowStats) option" where
  "flow_pair s fid =
     (case um_find (m_active_flows s) fid of
        None \<Rightarrow> None
      | Some fl \<Rightarrow> Some (fl, um_at zero_flow_stats (m_flow_stats s) fid))"

definition flow_abs :: "('p::len, 'c::len, 'r::len) flow_state \<Rightarrow> ('p, 'c, 'r) flow_spec" where
  "flow_abs s =
     \<lparr>sp_flows = flow_pair s, sp_published = published (flow_io s) STATE_DB,
      sp_mode = m_default_flow_mode s, sp_window = m_default_window_size s,
      sp_limit = unat (m_max_flows s), sp_timeout = uint (m_flow_timeout_sec s)\<rparr>"

lemma flow_abs_simps [simp]:
  "sp_flows (flow_abs s) = flow_pair s" "sp_published (flow_abs s) = published (flow_io s) STATE_DB"
  "sp_mode (flow_abs s) = m_default_flow_mode s" "sp_window (flow_abs s) = m_default_window_size s"
  "sp_limit (flow_abs s) = unat (m_max_flows s)" "sp_timeout (flow_abs s) = uint (m_flow_timeout_sec s)"
  by (simp_all add: flow_abs_def)

lemma dom_flow_pair: "dom (flow_pair s) = dom (um_find (m_active_flows s))"
  by (auto simp: flow_pair_def dom_def split: option.splits)

lemma card_active: "flow_inv E s \<Longrightarrow> card (dom (um_find (m_active_flows s))) = length (m_active_flows s)"
  using um.size_is_card [OF flow_invD(2), of E s] by simp

lemma um_at_erase: "um_at d (um_erase k m) k' = (if k' = k then d else um_at d m k')"
  by (simp add: um_at_def um_find_erase)

text \<open>An operation that touches neither the configuration nor the other flows.\<close>

lemma flow_abs_eqI:
  assumes "\<And>g. flow_pair s' g = sp_flows a g" and "\<And>k. published (flow_io s') STATE_DB k = sp_published a k"
    and "m_default_flow_mode s' = sp_mode a" and "m_default_window_size s' = sp_window a"
    and "unat (m_max_flows s') = sp_limit a" and "uint (m_flow_timeout_sec s') = sp_timeout a"
  shows "flow_abs s' = a"
  using assms by (cases a) (simp add: flow_abs_def fun_eq_iff)

lemmas flow_pair_simps = flow_pair_def um_simps um_at_erase restrict_map_def

lemma create_refines:
  "flow_inv E s \<Longrightarrow> flow_abs (createFlow now fid mode s) = spec_create now fid mode (flow_abs s)"
  by (rule flow_abs_eqI)
    (auto simp: createFlow_def spec_create_def card_active dom_flow_pair flow_pair_simps domIff
      split: option.splits)

lemma adjust_refines:
  assumes "flow_inv E s" and "um_find (m_active_flows s) fid = Some fl"
    and "m_active_flows s' = um_assign fid (f fl) (m_active_flows s)"
    and "m_flow_stats s' = um_assign fid (g (um_at zero_flow_stats (m_flow_stats s) fid)) (m_flow_stats s) \<or>
      g = id \<and> m_flow_stats s' = m_flow_stats s"
    and "flow_io s' = flow_io s" and "m_default_flow_mode s' = m_default_flow_mode s"
    and "m_default_window_size s' = m_default_window_size s" and "m_max_flows s' = m_max_flows s"
    and "m_flow_timeout_sec s' = m_flow_timeout_sec s"
  shows "flow_abs s' = spec_adjust fid f g (flow_abs s)"
  using assms(2-)
  by (intro flow_abs_eqI) (auto simp: spec_adjust_def flow_pair_simps split: option.splits)

lemma adjust_unknown:
  "um_find (m_active_flows s) fid = None \<Longrightarrow> spec_adjust fid f g (flow_abs s) = flow_abs s"
  by (intro flow_abs_eqI [symmetric]) (auto simp: spec_adjust_def flow_pair_simps)

lemma rtt_refines:
  assumes "flow_inv E s"
  shows "flow_abs (updateFlowRTT fid r s) = spec_adjust fid id (rtt_update r) (flow_abs s)"
proof -
  have "um_find (m_flow_stats s) fid = None \<longleftrightarrow> um_find (m_active_flows s) fid = None"
    using flow_invD(4) [OF assms] by (metis domIff)
  then show ?thesis
    by (intro flow_abs_eqI) (auto simp: updateFlowRTT_def spec_adjust_def flow_pair_simps um_at_def split: option.splits)
qed

lemma state_refines:
  "flow_abs (updateFlowState now fid st s) = spec_adjust fid (\<lambda>_. st\<lparr>fl_last_activity := now\<rparr>) id (flow_abs s)"
  by (intro flow_abs_eqI)
    (auto simp: updateFlowState_def spec_adjust_def flow_pair_simps split: option.splits)

lemma paths_refines:
  "flow_abs (updateFlowPaths fid ws s) =
   spec_adjust fid (\<lambda>fl. fl\<lparr>fl_path_weights := ws, fl_active_paths := of_nat (length ws)\<rparr>) id (flow_abs s)"
  by (intro flow_abs_eqI)
    (auto simp: updateFlowPaths_def spec_adjust_def flow_pair_simps split: option.splits)

text \<open>Spraying over no path of a known flow divides by zero; otherwise it adjusts the flow.\<close>

definition sprayed :: "8 word \<Rightarrow> ('p::len) UEFlowState \<Rightarrow> 'p UEFlowState" where
  "sprayed n fl = fl\<lparr>fl_packet_spraying_enabled := True, fl_active_paths := ucast n,
     fl_path_weights := replicate (unat n) (100 div ucast n)\<rparr>"

lemma spraying_refines:
  "if n = 0 \<and> fid \<in> dom (sp_flows (flow_abs s)) then enablePacketSpraying fid n s = Undefined Division_by_zero
   else \<exists>s'. enablePacketSpraying fid n s = Normal s' \<and> flow_abs s' = spec_adjust fid (sprayed n) id (flow_abs s)"
proof (cases "um_find (m_active_flows s) fid")
  case None
  then show ?thesis
    by (simp add: enablePacketSpraying_def adjust_unknown dom_flow_pair domIff)
next
  case (Some fl)
  define s' where "s' = s\<lparr>m_active_flows := um_assign fid (sprayed n fl) (m_active_flows s)\<rparr>"
  have "flow_abs s' = spec_adjust fid (sprayed n) id (flow_abs s)"
    using Some by (intro flow_abs_eqI) (auto simp: s'_def spec_adjust_def flow_pair_simps split: option.splits)
  with Some show ?thesis
    by (simp add: enablePacketSpraying_def dom_flow_pair domIff s'_def sprayed_def)
qed

lemma remove_refines: "flow_abs (removeFlow E fid s) = spec_remove E {fid} (flow_abs s)"
  by (rule flow_abs_eqI)
    (auto simp: removeFlow_def spec_remove_def flow_pair_simps split: option.splits)

lemma packet_refines:
  assumes "flow_inv E s" and "parsePacketFlowId p len = Inr fid"
  shows "\<exists>s'. processIncomingPacket now now' p len s = Normal s' \<and>
    flow_abs s' = spec_packet now now' fid len (flow_abs s)"
proof (cases "src_ip fid = 0 \<or> dst_ip fid = 0")
  case True
  then show ?thesis using assms(2) by (auto simp: processIncomingPacket_def spec_packet_def)
next
  case False
  define s1 where "s1 = (if um_find (m_active_flows s) fid = None
    then createFlow now fid (m_default_flow_mode s) s else s)"
  have abs1: "flow_abs s1 = spec_create now fid (sp_mode (flow_abs s)) (flow_abs s)"
    using create_refines [OF assms(1)] by (auto simp: s1_def spec_create_def dom_flow_pair domIff)
  have inv1: "flow_inv E s1" using createFlow_inv [OF assms(1)] assms(1) by (simp add: s1_def)
  show ?thesis
  proof (cases "um_find (m_active_flows s1) fid")
    case None
    with False assms(2) have "processIncomingPacket now now' p len s = Normal s1"
      by (simp add: processIncomingPacket_def s1_def [symmetric] Let_def)
    with False None show ?thesis
      by (simp add: spec_packet_def abs1 [unfolded flow_abs_simps, symmetric] adjust_unknown)
  next
    case (Some fl)
    with False assms(2) show ?thesis
      by (auto simp: processIncomingPacket_def s1_def [symmetric] Let_def spec_packet_def
          abs1 [unfolded flow_abs_simps, symmetric] um_modify_def intro!: adjust_refines [OF inv1 Some])
  qed
qed

lemma cleanup_from_config:
  "m_default_flow_mode (cleanup_from E now ks s) = m_default_flow_mode s \<and>
   m_default_window_size (cleanup_from E now ks s) = m_default_window_size s \<and>
   m_max_flows (cleanup_from E now ks s) = m_max_flows s \<and>
   m_flow_timeout_sec (cleanup_from E now ks s) = m_flow_timeout_sec s"
  by (induction ks arbitrary: s)
    (simp_all add: cleanup_from_Cons removeFlow_def del: cleanup_from.simps(2))

lemma cleanup_from_published:
  "published (flow_io (cleanup_from E now ks s)) STATE_DB k =
     (if \<exists>fid \<in> set ks. flow_expired now s fid \<and> stats_key E fid = k then None
      else published (flow_io s) STATE_DB k)"
proof (induction ks arbitrary: s)
  case Nil
  then show ?case by simp
next
  case (Cons fid ks)
  show ?case
  proof (cases "flow_expired now s fid")
    case True
    have "flow_io (removeFlow E fid s) = flow_io s @ [Db_del STATE_DB (stats_key E fid)]"
      by (simp add: removeFlow_def)
    with True Cons.IH [of "removeFlow E fid s"] show ?thesis
      by (auto simp: cleanup_from_Cons flow_expired_remove simp del: cleanup_from.simps(2))
  next
    case False
    with Cons.IH [of s] show ?thesis by auto
  qed
qed

lemma cleanup_refines: "flow_abs (cleanupExpiredFlows E now s) = spec_expire E now (flow_abs s)"
proof -
  have gone: "{fid. \<exists>fl st. flow_pair s fid = Some (fl, st) \<and> uint (m_flow_timeout_sec s) < now - fl_last_activity fl} =
      {fid. flow_expired now s fid}"
    by (auto simp: flow_pair_def flow_expired_def split: option.splits)
  have in_table: "flow_expired now s fid \<Longrightarrow> fid \<in> set (um_keys (m_active_flows s))" for fid
    by (auto simp: flow_expired_def um_keys_find split: option.splits)
  have key: "(\<exists>fid \<in> set (um_keys (m_active_flows s)). flow_expired now s fid \<and> stats_key E fid = k) \<longleftrightarrow>
      k \<in> stats_key E ` {fid. flow_expired now s fid}" for k
    using in_table by auto
  have pair: "flow_pair (cleanupExpiredFlows E now s) g = (if flow_expired now s g then None else flow_pair s g)" for g
    by (cases "um_find (m_active_flows s) g") (simp_all add: flow_pair_def cleanup_find um_at_def)
  have pub: "published (flow_io (cleanupExpiredFlows E now s)) STATE_DB k =
      (if k \<in> stats_key E ` {fid. flow_expired now s fid} then None else published (flow_io s) STATE_DB k)" for k
    by (simp add: cleanupExpiredFlows_def cleanup_from_published key)
  have "spec_expire E now (flow_abs s) = spec_remove E {fid. flow_expired now s fid} (flow_abs s)"
    by (simp only: spec_expire_def flow_abs_simps gone)
  then show ?thesis
    using cleanup_from_config [of E now "um_keys (m_active_flows s)" s, folded cleanupExpiredFlows_def]
    by (intro flow_abs_eqI) (simp_all add: spec_remove_def restrict_map_def pair pub)
qed

section \<open>Properties\<close>

text \<open>
  Property C3: the flow table implements its abstract specification. In every reachable state,
  creating a flow, receiving a packet, recording a round-trip time, replacing the state or the
  paths of a flow, spraying over some paths, removing a flow and clearing out expired flows are exactly the operations
  of the specification on a partial map: the hash maps, their iteration orders and the two
  tables they are spread over do not show.
\<close>

theorem flow_manager_refines_spec:
  assumes "flow_reachable E s"
  shows "flow_abs (createFlow now fid mode s) = spec_create now fid mode (flow_abs s) \<and>
    (\<exists>g s'. parsePacketFlowId packet (length packet) = Inr g \<and>
      processIncomingPacket now now' packet (length packet) s = Normal s' \<and>
      flow_abs s' = spec_packet now now' g (length packet) (flow_abs s)) \<and>
    flow_abs (updateFlowRTT fid r s) = spec_adjust fid id (rtt_update r) (flow_abs s) \<and>
    flow_abs (updateFlowState now fid st s) =
      spec_adjust fid (\<lambda>_. st\<lparr>fl_last_activity := now\<rparr>) id (flow_abs s) \<and>
    flow_abs (updateFlowPaths fid ws s) =
      spec_adjust fid (\<lambda>fl. fl\<lparr>fl_path_weights := ws, fl_active_paths := of_nat (length ws)\<rparr>) id (flow_abs s) \<and>
    (if n = 0 \<and> fid \<in> dom (sp_flows (flow_abs s)) then enablePacketSpraying fid n s = Undefined Division_by_zero
     else \<exists>s'. enablePacketSpraying fid n s = Normal s' \<and>
       flow_abs s' = spec_adjust fid (sprayed n) id (flow_abs s)) \<and>
    flow_abs (removeFlow E fid s) = spec_remove E {fid} (flow_abs s) \<and>
    flow_abs (cleanupExpiredFlows E now s) = spec_expire E now (flow_abs s)"
proof -
  note inv = flow_reachable_flow_inv [OF assms]
  obtain g where g: "parsePacketFlowId packet (length packet) = Inr g"
    using parse_in_bounds [of "length packet" packet] by auto
  show ?thesis
    using packet_refines [OF inv g, of now now'] g
    by (intro conjI create_refines [OF inv] rtt_refines [OF inv] state_refines paths_refines
        spraying_refines remove_refines cleanup_refines) blast
qed

theorem flow_manager_refines_spec_witness:
  "flow_abs (removeFlow flow_ex_env flow_ex_id flow_ex) = spec_remove flow_ex_env {flow_ex_id} (flow_abs flow_ex) \<and>
   dom (sp_flows (flow_abs flow_ex)) = {flow_ex_id}"
proof (rule conjI)
  show "flow_abs (removeFlow flow_ex_env flow_ex_id flow_ex) = spec_remove flow_ex_env {flow_ex_id} (flow_abs flow_ex)"
    using flow_manager_refines_spec [OF flow_ex_reachable, of 0 flow_ex_id RELIABLE_ORDERED_DELIVERY "[]" 0 0
        "new_flow 0 flow_ex_id RELIABLE_ORDERED_DELIVERY 0" "[]" 1] by blast
  show "dom (sp_flows (flow_abs flow_ex)) = {flow_ex_id}"
    by (simp add: dom_flow_pair flow_ex_flows) (auto simp: um_find_def dom_def)
qed

end
