(* ===== verification/Flow_Runs.thy ===== *)
theory Flow_Runs
  imports Flow_Spec Traffic
begin

text \<open>
  Whole runs of the flow manager against an abstract specification: from construction, any
  sequence of packets and periodic calls leaves the manager, its timers and what it has
  published exactly as the specification says, with no bound on the number of packets, the
  clock or the time between events.
\<close>

section \<open>The specification\<close>

text \<open>Entries are shown per flow; \<open>tr_reported\<close> and \<open>tr_cleaned\<close> are when the two jobs last ran.\<close>

record (overloaded) ('p, 'c, 'r) traffic_spec =
  tr_flows :: "UEFlowId \<Rightarrow> ('p::len UEFlowState \<times> ('c::len, 'r::len) UEFlowStats) option"
  tr_shown :: "UEFlowId \<Rightarrow> fvs option"
  tr_mode :: UEFlowMode
  tr_window :: "32 word"
  tr_limit :: nat
  tr_timeout :: int
  tr_reported :: int
  tr_cleaned :: int

definition traffic_start :: "('p::len, 'c::len, 'r::len) traffic_spec" where
  "traffic_start =
     \<lparr>tr_flows = (\<lambda>_. None), tr_shown = (\<lambda>_. None),
      tr_mode = RELIABLE_UNORDERED_DELIVERY, tr_window = 65536, tr_limit = 1000000, tr_timeout = 300,
      tr_reported = 0, tr_cleaned = 0\<rparr>"

text \<open>
  A packet of a known flow is counted and refreshes it; an unknown flow is created if there is
  room, and otherwise the packet is not counted at all.
\<close>

definition tr_packet ::
  "int \<Rightarrow> int \<Rightarrow> UEFlowId \<Rightarrow> nat \<Rightarrow> ('p::len, 'c::len, 'r::len) traffic_spec \<Rightarrow> ('p, 'c, 'r) traffic_spec" where
  "tr_packet now now' fid len a =
     (if \<not> counted fid then a
      else case tr_flows a fid of
        Some (fl, st) \<Rightarrow>
          a\<lparr>tr_flows := (tr_flows a)(fid \<mapsto> (fl\<lparr>fl_last_activity := now'\<rparr>, add_traffic [len] st))\<rparr>
      | None \<Rightarrow>
          if tr_limit a \<le> card (dom (tr_flows a)) then a
          else a\<lparr>tr_flows := (tr_flows a)(fid \<mapsto>
            ((new_flow now fid (tr_mode a) (tr_window a))\<lparr>fl_last_activity := now'\<rparr>,
             add_traffic [len] zero_flow_stats))\<rparr>)"

definition tr_report :: "('p::len, 'c::len, 'r::len) traffic_spec \<Rightarrow> ('p, 'c, 'r) traffic_spec" where
  "tr_report a = a\<lparr>tr_shown := \<lambda>fid. map_option (\<lambda>(fl, st). flow_stats_fvs st) (tr_flows a fid)\<rparr>"

definition tr_expired :: "int \<Rightarrow> ('p::len, 'c::len, 'r::len) traffic_spec \<Rightarrow> UEFlowId \<Rightarrow> bool" where
  "tr_expired now a fid =
     (case tr_flows a fid of None \<Rightarrow> False | Some (fl, st) \<Rightarrow> tr_timeout a < now - fl_last_activity fl)"

definition tr_clean :: "int \<Rightarrow> ('p::len, 'c::len, 'r::len) traffic_spec \<Rightarrow> ('p, 'c, 'r) traffic_spec" where
  "tr_clean now a =
     a\<lparr>tr_flows := \<lambda>fid. if tr_expired now a fid then None else tr_flows a fid,
       tr_shown := \<lambda>fid. if tr_expired now a fid then None else tr_shown a fid\<rparr>"

definition tr_tick :: "int \<Rightarrow> int \<Rightarrow> ('p::len, 'c::len, 'r::len) traffic_spec \<Rightarrow> ('p, 'c, 'r) traffic_spec" where
  "tr_tick now now' a =
     (let a1 = (if 1 \<le> now - tr_reported a then (tr_report a)\<lparr>tr_reported := now\<rparr> else a)
      in if 60 \<le> now - tr_cleaned a1 then (tr_clean now' a1)\<lparr>tr_cleaned := now\<rparr> else a1)"

fun tr_event :: "traffic_event \<Rightarrow> ('p::len, 'c::len, 'r::len) traffic_spec \<Rightarrow> ('p, 'c, 'r) traffic_spec" where
  "tr_event (Arrives now now' p) a =
     (case parsePacketFlowId p (length p) of Inl u \<Rightarrow> a | Inr fid \<Rightarrow> tr_packet now now' fid (length p) a)"
| "tr_event (Ticks now now') a = tr_tick now now' a"

section \<open>Abstraction\<close>

definition traffic_abs ::
  "flow_env \<Rightarrow> ('p::len, 'c::len, 'r::len) flow_state \<Rightarrow> ('p, 'c, 'r) traffic_spec" where
  "traffic_abs E s =
     \<lparr>tr_flows = flow_pair s,
      tr_shown = (\<lambda>fid. if ip_version fid = 4 then published (flow_io s) STATE_DB (stats_key E fid) else None),
      tr_mode = m_default_flow_mode s, tr_window = m_default_window_size s,
      tr_limit = unat (m_max_flows s), tr_timeout = uint (m_flow_timeout_sec s),
      tr_reported = flow_last_stats_update s, tr_cleaned = flow_last_cleanup s\<rparr>"

text \<open>What runs keep: the manager's invariant, and that packets create IPv4 flows only.\<close>

definition traffic_inv :: "flow_env \<Rightarrow> ('p::len, 'c::len, 'r::len) flow_state \<Rightarrow> bool" where
  "traffic_inv E s \<longleftrightarrow>
     flow_inv E s \<and> (\<forall>fid. um_find (m_active_flows s) fid \<noteq> None \<longrightarrow> ip_version fid = 4)"

lemma traffic_invD:
  assumes "traffic_inv E s"
  shows "flow_inv E s" and "um_find (m_active_flows s) fid \<noteq> None \<Longrightarrow> ip_version fid = 4"
  using assms unfolding traffic_inv_def by blast+

lemma traffic_abs_eqI:
  assumes "\<And>g. flow_pair s g = tr_flows a g"
    and "\<And>g. ip_version g = 4 \<Longrightarrow> published (flow_io s) STATE_DB (stats_key E g) = tr_shown a g"
    and "\<And>g. ip_version g \<noteq> 4 \<Longrightarrow> tr_shown a g = None"
    and "m_default_flow_mode s = tr_mode a" and "m_default_window_size s = tr_window a"
    and "unat (m_max_flows s) = tr_limit a" and "uint (m_flow_timeout_sec s) = tr_timeout a"
    and "flow_last_stats_update s = tr_reported a" and "flow_last_cleanup s = tr_cleaned a"
  shows "traffic_abs E s = a"
  using assms by (cases a) (auto simp: traffic_abs_def fun_eq_iff)

lemma traffic_abs_simps [simp]:
  "tr_flows (traffic_abs E s) = flow_pair s"
  "tr_shown (traffic_abs E s) fid =
     (if ip_version fid = 4 then published (flow_io s) STATE_DB (stats_key E fid) else None)"
  "tr_mode (traffic_abs E s) = m_default_flow_mode s" "tr_window (traffic_abs E s) = m_default_window_size s"
  "tr_limit (traffic_abs E s) = unat (m_max_flows s)" "tr_timeout (traffic_abs E s) = uint (m_flow_timeout_sec s)"
  "tr_reported (traffic_abs E s) = flow_last_stats_update s" "tr_cleaned (traffic_abs E s) = flow_last_cleanup s"
  by (simp_all add: traffic_abs_def)

lemma traffic_abs_start: "traffic_abs E UEFlowManager = traffic_start"
  by (rule traffic_abs_eqI) (simp_all add: traffic_start_def UEFlowManager_def flow_pair_def)

lemma traffic_inv_start: "traffic_inv E UEFlowManager"
  by (simp only: traffic_inv_def flow_inv_init) (simp add: UEFlowManager_def)

section \<open>Packets\<close>

lemma stats_known:
  assumes "flow_inv E s"
  shows "um_find (m_flow_stats s) g = None \<longleftrightarrow> um_find (m_active_flows s) g = None"
  using flow_invD(4) [OF assms] by (metis domIff)

lemma packet_run:
  assumes "traffic_inv E s" and "parsePacketFlowId p len = Inr fid"
  shows "\<exists>s'. processIncomingPacket now now' p len s = Normal s' \<and> traffic_inv E s' \<and>
    traffic_abs E s' = tr_packet now now' fid len (traffic_abs E s)"
proof -
  note inv = traffic_invD(1) [OF assms(1)]
  have limit: "card (dom (flow_pair s)) = length (m_active_flows s)"
    by (simp add: dom_flow_pair card_active [OF inv])
  obtain s' where s': "processIncomingPacket now now' p len s = Normal s'"
    using packet_refines [OF inv assms(2)] by blast
  have "flow_inv E s'" using processIncomingPacket_inv [OF inv, of now now' p len] s' by simp
  moreover have "ip_version g = 4" if "um_find (m_active_flows s') g \<noteq> None" for g
  proof (cases "um_find (m_active_flows s) g")
    case None
    with that s' assms(2) have "g = fid" and "counted fid"
      by (auto simp: processIncomingPacket_def Let_def createFlow_def um_simps counted_def
          split: if_splits option.splits)
    then show ?thesis using parse_counted_v4 [OF assms(2)] by (simp add: counted_def)
  next
    case (Some fl)
    then show ?thesis using traffic_invD(2) [OF assms(1)] by simp
  qed
  moreover have "traffic_abs E s' = tr_packet now now' fid len (traffic_abs E s)"
    using s' assms(2) limit stats_known [OF inv, of fid]
    by (intro traffic_abs_eqI)
      (auto simp: processIncomingPacket_def Let_def createFlow_def tr_packet_def counted_def
        flow_pair_simps add_traffic_one um_modify_def split: if_splits option.splits)
  ultimately show ?thesis using s' unfolding traffic_inv_def by blast
qed

section \<open>Periodic calls\<close>

lemma traffic_inv_stamps [simp]:
  "traffic_inv E (s\<lparr>flow_last_stats_update := t\<rparr>) = traffic_inv E s"
  "traffic_inv E (s\<lparr>flow_last_cleanup := t\<rparr>) = traffic_inv E s"
  "traffic_inv E (s\<lparr>flow_last_report := t\<rparr>) = traffic_inv E s"
  by (simp_all add: traffic_inv_def)

lemma stats_key_v4: "ip_version g = 4 \<Longrightarrow> ip_version h = 4 \<Longrightarrow> stats_key E g = stats_key E h \<longleftrightarrow> g = h"
  by (auto simp: stats_key_def flow_stats_key_eq_iff)

lemma report_run:
  fixes s :: "('p::len, 'c::len, 'r::len) flow_state"
  assumes "traffic_inv E s"
  shows "traffic_inv E (publish_flows E (um_keys (m_flow_stats s)) s)" (is "traffic_inv E ?s")
    and "traffic_abs E ((publish_flows E (um_keys (m_flow_stats s)) s)\<lparr>flow_last_stats_update := now\<rparr>) =
      (tr_report (traffic_abs E s))\<lparr>tr_reported := now\<rparr>"
proof -
  note inv = traffic_invD(1) [OF assms]
  show "traffic_inv E ?s"
    using publish_flows_inv [OF inv, of "um_keys (m_flow_stats s)"] traffic_invD(2) [OF assms]
    by (simp add: traffic_inv_def um_keys_find subset_eq domIff)
  have v4: "\<forall>g. um_find (m_flow_stats s) g \<noteq> None \<longrightarrow> ip_version g = 4"
    using traffic_invD(2) [OF assms] stats_known [OF inv] by simp
  have shown: "published (flow_io ?s) STATE_DB (stats_key E g) = map_option flow_stats_fvs (um_find (m_flow_stats s) g)"
    if "ip_version g = 4" for g
    using statistics_mirror [OF inv v4 that] by (simp add: updateFlowStatistics_fold)
  have pair: "flow_pair (?s\<lparr>flow_last_stats_update := now\<rparr>) g = flow_pair s g" for g
    by (cases "um_find (m_active_flows s) g") (simp_all add: flow_pair_def)
  have stats: "map_option flow_stats_fvs (um_find (m_flow_stats s) g) =
      map_option (\<lambda>(fl, st). flow_stats_fvs st) (flow_pair s g)" for g
    using stats_known [OF inv, of g]
    by (cases "um_find (m_flow_stats s) g"; cases "um_find (m_active_flows s) g") (simp_all add: flow_pair_def um_at_def)
  have none: "flow_pair s g = None" if "ip_version g \<noteq> 4" for g
    using traffic_invD(2) [OF assms, of g] that
    by (cases "um_find (m_active_flows s) g") (simp_all add: flow_pair_def)
  show "traffic_abs E (?s\<lparr>flow_last_stats_update := now\<rparr>) = (tr_report (traffic_abs E s))\<lparr>tr_reported := now\<rparr>"
    by (rule traffic_abs_eqI) (simp_all add: tr_report_def shown stats none pair)
qed

lemma tr_expired_abs: "tr_expired now (traffic_abs E s) g = flow_expired now s g"
  by (simp add: tr_expired_def flow_expired_def flow_pair_def split: option.split)

lemma clean_run:
  fixes s :: "('p::len, 'c::len, 'r::len) flow_state"
  assumes "traffic_inv E s"
  shows "traffic_inv E (cleanupExpiredFlows E now' s)" (is "traffic_inv E ?s")
    and "traffic_abs E ((cleanupExpiredFlows E now' s)\<lparr>flow_last_cleanup := now\<rparr>) =
      (tr_clean now' (traffic_abs E s))\<lparr>tr_cleaned := now\<rparr>"
proof -
  note inv = traffic_invD(1) [OF assms]
  show "traffic_inv E ?s"
    using cleanup_inv [OF inv] traffic_invD(2) [OF assms] by (auto simp: traffic_inv_def cleanup_find split: if_splits)
  have v4: "ip_version g = 4" if "flow_expired now' s g" for g
    using that traffic_invD(2) [OF assms, of g] by (auto simp: flow_expired_def split: option.splits)
  have in_table: "g \<in> set (um_keys (m_active_flows s))" if "flow_expired now' s g" for g
    using that by (auto simp: flow_expired_def um_keys_find split: option.splits)
  have shown: "published (flow_io ?s) STATE_DB (stats_key E g) =
      (if flow_expired now' s g then None else published (flow_io s) STATE_DB (stats_key E g))"
    if "ip_version g = 4" for g
  proof -
    have "(\<exists>h \<in> set (um_keys (m_active_flows s)). flow_expired now' s h \<and> stats_key E h = stats_key E g)
        \<longleftrightarrow> flow_expired now' s g"
      using in_table v4 stats_key_v4 that by metis
    then show ?thesis by (simp add: cleanupExpiredFlows_def cleanup_from_published)
  qed
  have pair: "flow_pair (?s\<lparr>flow_last_cleanup := now\<rparr>) g = (if flow_expired now' s g then None else flow_pair s g)" for g
    by (cases "um_find (m_active_flows s) g") (simp_all add: flow_pair_def cleanup_find um_at_def)
  show "traffic_abs E (?s\<lparr>flow_last_cleanup := now\<rparr>) = (tr_clean now' (traffic_abs E s))\<lparr>tr_cleaned := now\<rparr>"
    using cleanup_from_config [of E now' "um_keys (m_active_flows s)" s, folded cleanupExpiredFlows_def]
    by (intro traffic_abs_eqI) (simp_all add: tr_clean_def tr_expired_abs shown pair)
qed

text \<open>What happens to the manager when it writes its log of the number of flows.\<close>

lemma traffic_abs_report [simp]: "traffic_abs E (s\<lparr>flow_last_report := t\<rparr>) = traffic_abs E s"
proof -
  have "flow_pair (s\<lparr>flow_last_report := t\<rparr>) g = flow_pair s g" for g
    by (cases "um_find (m_active_flows s) g") (simp_all add: flow_pair_def)
  then show ?thesis by (simp add: traffic_abs_def fun_eq_iff)
qed

lemma tick_run:
  fixes s :: "('p::len, 'c::len, 'r::len) flow_state"
  assumes "traffic_inv E s"
  shows "\<exists>s'. flow_doPeriodicTask E now now' s = Normal s' \<and> traffic_inv E s' \<and>
    traffic_abs E s' = tr_tick now now' (traffic_abs E s)"
proof -
  define s1 where "s1 =
    (if 1 \<le> now - flow_last_stats_update s
     then (publish_flows E (um_keys (m_flow_stats s)) s)\<lparr>flow_last_stats_update := now\<rparr> else s)"
  define s2 where "s2 =
    (if 60 \<le> now - flow_last_cleanup s1
     then (cleanupExpiredFlows E now' s1)\<lparr>flow_last_cleanup := now\<rparr> else s1)"
  have run: "flow_doPeriodicTask E now now' s =
      Normal (if 300 \<le> now - flow_last_report s2 then s2\<lparr>flow_last_report := now\<rparr> else s2)"
    unfolding flow_doPeriodicTask_def updateFlowStatistics_fold s2_def s1_def Let_def
    by (cases "1 \<le> now - flow_last_stats_update s") (simp_all only: if_True if_False out_bind.simps)
  have abs1: "traffic_abs E s1 = (if 1 \<le> now - flow_last_stats_update s
      then (tr_report (traffic_abs E s))\<lparr>tr_reported := now\<rparr> else traffic_abs E s)"
    by (simp add: s1_def report_run(2) [OF assms])
  have inv1: "traffic_inv E s1" by (simp add: s1_def assms report_run(1) [OF assms])
  have abs2: "traffic_abs E s2 = (if 60 \<le> now - flow_last_cleanup s1
      then (tr_clean now' (traffic_abs E s1))\<lparr>tr_cleaned := now\<rparr> else traffic_abs E s1)"
    by (simp add: s2_def clean_run(2) [OF inv1])
  have inv2: "traffic_inv E s2" by (simp add: s2_def inv1 clean_run(1) [OF inv1])
  have last: "tr_cleaned (traffic_abs E s1) = flow_last_cleanup s1" by simp
  have "traffic_abs E s2 = tr_tick now now' (traffic_abs E s)"
    unfolding tr_tick_def Let_def traffic_abs_simps(7) abs1 [symmetric] last abs2 ..
  with run inv2 show ?thesis by simp
qed

section \<open>Whole runs\<close>

lemma event_run:
  assumes "traffic_inv E s"
  shows "\<exists>s'. flow_events E [e] s = Normal s' \<and> traffic_inv E s' \<and>
    traffic_abs E s' = tr_event e (traffic_abs E s)"
proof (cases e)
  case (Arrives now now' p)
  obtain fid where fid: "parsePacketFlowId p (length p) = Inr fid"
    using parse_in_bounds [of "length p" p] by auto
  from packet_run [OF assms fid, of now now'] obtain s' where
    "processIncomingPacket now now' p (length p) s = Normal s'" "traffic_inv E s'"
    "traffic_abs E s' = tr_packet now now' fid (length p) (traffic_abs E s)" by blast
  then show ?thesis by (simp add: Arrives fid)
next
  case (Ticks now now')
  from tick_run [OF assms, of now now'] obtain s' where
    "flow_doPeriodicTask E now now' s = Normal s'" "traffic_inv E s'"
    "traffic_abs E s' = tr_tick now now' (traffic_abs E s)" by blast
  then show ?thesis by (simp add: Ticks)
qed

lemma events_run:
  assumes "traffic_inv E s"
  shows "\<exists>s'. flow_events E es s = Normal s' \<and> traffic_inv E s' \<and>
    traffic_abs E s' = foldl (\<lambda>a e. tr_event e a) (traffic_abs E s) es"
  using assms
proof (induction es arbitrary: s)
  case Nil
  then show ?case by simp
next
  case (Cons e es)
  from event_run [OF Cons.prems, of e] obtain s1 where s1: "flow_events E [e] s = Normal s1" "traffic_inv E s1"
    "traffic_abs E s1 = tr_event e (traffic_abs E s)" by blast
  have "flow_events E (e # es) s = flow_events E es s1"
    using flow_events_append [of E "[e]" es s] s1(1) by simp
  with Cons.IH [OF s1(2)] s1(3) show ?case by simp
qed

section \<open>Properties\<close>

text \<open>
  Property C11: whole runs of the flow manager implement their abstract account. From
  construction, any sequence of packets of any bytes and of periodic calls, at any times,
  returns, and leaves in the flow table and its statistics, in the two timers and under the
  statistics keys of IPv4 flows exactly what the account says: a packet of a counted flow
  adds one packet and its size and refreshes the flow, an unknown flow is created while there
  is room, a call a second after the last pass publishes every flow, and one a minute
  after the last cleanup forgets and unpublishes exactly the flows idle beyond the timeout.
\<close>

theorem traffic_refines_spec:
  "\<exists>s. flow_events E es UEFlowManager = Normal s \<and>
    traffic_abs E s = foldl (\<lambda>a e. tr_event e a) traffic_start es"
  using events_run [OF traffic_inv_start, of E es] by (auto simp: traffic_abs_start)

end
