(* ===== verification/Congestion_Spec.thy ===== *)
theory Congestion_Spec
  imports Congestion_Manager
begin

text \<open>
  The abstract specification of \<open>ue_congestion_manager.cpp\<close>: partial maps for the interfaces,
  their statistics and the paths, the queue of events, and what is published per interface.
  A detection pass is one simultaneous update of all interfaces; the iteration order of the
  hash map shows in nothing but the order of the events it queues.
\<close>

section \<open>The specification\<close>

record (overloaded) 'c congestion_spec =
  cg_interfaces :: "string \<Rightarrow> CongestionInfo option"
  cg_stats :: "string \<Rightarrow> 'c::len CongestionStats option"
  cg_paths :: "string \<Rightarrow> PathInfo option"
  cg_events :: "CongestionInfo list"
  cg_marking :: "string \<Rightarrow> fvs option"
  cg_report :: "string \<Rightarrow> fvs option"
  cg_threshold :: "32 word"
  cg_rebalancing :: bool
  cg_interval :: "32 word"
  cg_checked :: "64 word"
  cg_rebalanced :: "64 word"
  cg_reported :: "64 word"

text \<open>The state an interface enters in a pass, if it changes its state.\<close>

definition enters ::
  "(string \<Rightarrow> nat \<times> 64 word) \<Rightarrow> (string \<Rightarrow> CongestionInfo option) \<Rightarrow> string \<Rightarrow> CongestionState option" where
  "enters reading m i =
     (case m i of
        None \<Rightarrow> None
      | Some info \<Rightarrow>
          (let new = ci_state (detected (reading i) info)
           in if new = ci_state info then None else Some new))"

definition queue_events :: "'e list \<Rightarrow> 'e list \<Rightarrow> 'e list" where
  "queue_events q new = (if new = [] then q else drop (length q + length new - 100) (q @ new))"

definition spec_rebalance :: "('c::len) congestion_spec \<Rightarrow> 'c congestion_spec" where
  "spec_rebalance a = a\<lparr>cg_paths := map_option path_update \<circ> cg_paths a\<rparr>"

definition spec_detect ::
  "('c::len) congestion_env \<Rightarrow> (string \<Rightarrow> nat \<times> 64 word) \<Rightarrow> string list \<Rightarrow> 'c congestion_spec \<Rightarrow> 'c congestion_spec" where
  "spec_detect E reading order a =
     (let entered = enters reading (cg_interfaces a);
          found = (\<lambda>i. map_option (detected (reading i)) (cg_interfaces a i));
          a1 = (if cg_rebalancing a \<and> (\<exists>i. entered i = Some CONGESTED) then spec_rebalance a else a)
      in a1\<lparr>cg_interfaces := found,
            cg_stats := \<lambda>i. case entered i of
                None \<Rightarrow> cg_stats a i
              | Some state \<Rightarrow> Some (count_event (cg_rebalancing a) state
                  (case cg_stats a i of None \<Rightarrow> default_congestion_stats E | Some st \<Rightarrow> st)),
            cg_events := queue_events (cg_events a) (map (the \<circ> found) (filter (\<lambda>i. entered i \<noteq> None) order)),
            cg_marking := \<lambda>i. if entered i = Some WARNING then Some (ecn_fvs (cg_threshold a)) else cg_marking a i\<rparr>)"

definition spec_report :: "('c::len) congestion_spec \<Rightarrow> 'c congestion_spec" where
  "spec_report a = a\<lparr>cg_report := \<lambda>i. case cg_stats a i of
       None \<Rightarrow> cg_report a i
     | Some st \<Rightarrow> Some (congestion_stats_fvs st)\<rparr>"

text \<open>The two timers of the periodic task after its detection block.\<close>

definition spec_timers :: "64 word \<Rightarrow> ('c::len) congestion_spec \<Rightarrow> 'c congestion_spec" where
  "spec_timers now a =
     (let a1 = (if cg_rebalancing a \<and> 1000 \<le> now - cg_rebalanced a
                then (spec_rebalance a)\<lparr>cg_rebalanced := now\<rparr> else a)
      in if 5000 \<le> now - cg_reported a1 then (spec_report a1)\<lparr>cg_reported := now\<rparr> else a1)"

section \<open>Abstraction\<close>

definition congestion_abs :: "('c::len) congestion_env \<Rightarrow> 'c congestion_state \<Rightarrow> 'c congestion_spec" where
  "congestion_abs E s =
     \<lparr>cg_interfaces = um_find (m_interface_congestion s), cg_stats = um_find (m_congestion_stats s),
      cg_paths = um_find (m_path_info s), cg_events = m_congestion_events s,
      cg_marking = (\<lambda>i. published (congestion_io s) APPL_DB (ecn_key E i)),
      cg_report = (\<lambda>i. published (congestion_io s) STATE_DB (congestion_stats_key E i)),
      cg_threshold = m_ecn_threshold_percent s, cg_rebalancing = m_path_rebalancing_enabled s,
      cg_interval = m_congestion_detection_interval_ms s, cg_checked = m_last_congestion_check s,
      cg_rebalanced = m_last_path_rebalance s, cg_reported = m_last_stats_update s\<rparr>"

lemma congestion_abs_simps [simp]:
  "cg_interfaces (congestion_abs E s) = um_find (m_interface_congestion s)"
  "cg_stats (congestion_abs E s) = um_find (m_congestion_stats s)"
  "cg_paths (congestion_abs E s) = um_find (m_path_info s)"
  "cg_events (congestion_abs E s) = m_congestion_events s"
  "cg_marking (congestion_abs E s) i = published (congestion_io s) APPL_DB (ecn_key E i)"
  "cg_report (congestion_abs E s) i = published (congestion_io s) STATE_DB (congestion_stats_key E i)"
  "cg_threshold (congestion_abs E s) = m_ecn_threshold_percent s"
  "cg_rebalancing (congestion_abs E s) = m_path_rebalancing_enabled s"
  "cg_interval (congestion_abs E s) = m_congestion_detection_interval_ms s"
  "cg_checked (congestion_abs E s) = m_last_congestion_check s"
  "cg_rebalanced (congestion_abs E s) = m_last_path_rebalance s"
  "cg_reported (congestion_abs E s) = m_last_stats_update s"
  by (simp_all add: congestion_abs_def)

text \<open>The stamps and the interval move independently of everything else.\<close>

lemma congestion_abs_stamps [simp]:
  "congestion_abs E (s\<lparr>m_last_congestion_check := t\<rparr>) = (congestion_abs E s)\<lparr>cg_checked := t\<rparr>"
  "congestion_abs E (s\<lparr>m_last_path_rebalance := t\<rparr>) = (congestion_abs E s)\<lparr>cg_rebalanced := t\<rparr>"
  "congestion_abs E (s\<lparr>m_last_stats_update := t\<rparr>) = (congestion_abs E s)\<lparr>cg_reported := t\<rparr>"
  by (simp_all add: congestion_abs_def)

lemma congestion_abs_eqI:
  assumes "\<And>i. um_find (m_interface_congestion s) i = cg_interfaces a i"
    and "\<And>i. um_find (m_congestion_stats s) i = cg_stats a i" and "\<And>p. um_find (m_path_info s) p = cg_paths a p"
    and "m_congestion_events s = cg_events a"
    and "\<And>i. published (congestion_io s) APPL_DB (ecn_key E i) = cg_marking a i"
    and "\<And>i. published (congestion_io s) STATE_DB (congestion_stats_key E i) = cg_report a i"
    and "m_ecn_threshold_percent s = cg_threshold a" and "m_path_rebalancing_enabled s = cg_rebalancing a"
    and "m_congestion_detection_interval_ms s = cg_interval a" and "m_last_congestion_check s = cg_checked a"
    and "m_last_path_rebalance s = cg_rebalanced a" and "m_last_stats_update s = cg_reported a"
  shows "congestion_abs E s = a"
  using assms by (cases a) (simp add: congestion_abs_def fun_eq_iff)

lemma spec_detect_simps [simp]:
  "cg_interfaces (spec_detect E reading order a) i = map_option (detected (reading i)) (cg_interfaces a i)"
  "cg_stats (spec_detect E reading order a) i =
     (case enters reading (cg_interfaces a) i of
        None \<Rightarrow> cg_stats a i
      | Some state \<Rightarrow> Some (count_event (cg_rebalancing a) state
          (case cg_stats a i of None \<Rightarrow> default_congestion_stats E | Some st \<Rightarrow> st)))"
  "cg_paths (spec_detect E reading order a) p =
     (if cg_rebalancing a \<and> (\<exists>i. enters reading (cg_interfaces a) i = Some CONGESTED)
      then map_option path_update (cg_paths a p) else cg_paths a p)"
  "cg_events (spec_detect E reading order a) =
     queue_events (cg_events a) (map (the \<circ> (\<lambda>i. map_option (detected (reading i)) (cg_interfaces a i)))
       (filter (\<lambda>i. enters reading (cg_interfaces a) i \<noteq> None) order))"
  "cg_marking (spec_detect E reading order a) i =
     (if enters reading (cg_interfaces a) i = Some WARNING then Some (ecn_fvs (cg_threshold a)) else cg_marking a i)"
  "cg_report (spec_detect E reading order a) = cg_report a"
  "cg_threshold (spec_detect E reading order a) = cg_threshold a"
  "cg_rebalancing (spec_detect E reading order a) = cg_rebalancing a"
  "cg_interval (spec_detect E reading order a) = cg_interval a"
  "cg_checked (spec_detect E reading order a) = cg_checked a"
  "cg_rebalanced (spec_detect E reading order a) = cg_rebalanced a"
  "cg_reported (spec_detect E reading order a) = cg_reported a"
  by (auto simp: spec_detect_def spec_rebalance_def Let_def)

section \<open>Paths and statistics\<close>

lemma path_fold_interval:
  "m_congestion_detection_interval_ms (foldl (\<lambda>s i. path_step i s) s ks) = m_congestion_detection_interval_ms s"
  by (induction ks arbitrary: s) (simp_all add: path_step_def split: option.split)

lemma rebalance_refines: "congestion_abs E (reweighted s) = spec_rebalance (congestion_abs E s)"
  by (simp add: congestion_abs_def spec_rebalance_def reweighted_find path_fold_interval fun_eq_iff
      reweighted_def [THEN arg_cong [where f = m_congestion_detection_interval_ms]])

lemma congestion_stats_key_inj: "inj (congestion_stats_key E)"
  by (simp add: inj_def congestion_stats_key_def)

lemma publish_fold:
  "foldl (\<lambda>s i. publish_congestion E i s) s ks =
     s\<lparr>congestion_io := congestion_io s @ map (\<lambda>i. Db_set STATE_DB (congestion_stats_key E i)
         (congestion_stats_fvs (um_at (default_congestion_stats E) (m_congestion_stats s) i))) ks\<rparr>"
  by (induction ks arbitrary: s) (simp_all add: publish_congestion_def congestion_emit_def)

lemma report_refines:
  "\<exists>s'. updateCongestionStatistics E s = Normal s' \<and> congestion_abs E s' = spec_report (congestion_abs E s)"
proof (intro exI conjI)
  show "updateCongestionStatistics E s =
      Normal (foldl (\<lambda>s i. publish_congestion E i s) s (um_keys (m_congestion_stats s)))"
    by (simp add: updateCongestionStatistics_def congestion_publish_loop.loop_fold)
  show "congestion_abs E (foldl (\<lambda>s i. publish_congestion E i s) s (um_keys (m_congestion_stats s))) =
      spec_report (congestion_abs E s)"
    by (simp add: publish_fold congestion_abs_def spec_report_def fun_eq_iff um_keys_find um_at_def
        published_map [OF congestion_stats_key_inj] published_map_other_db split: option.split)
qed

section \<open>Detection\<close>

lemma enters_changes:
  "enters reading (um_find (m_interface_congestion s)) i =
     (if changes reading s i then Some (ci_state (new_info E reading s i)) else None)"
  by (simp add: enters_def changes_def new_info_def um_at_def Let_def split: option.split)

lemma detect_step_interval [simp]:
  "m_congestion_detection_interval_ms (detect_step E reading i s) = m_congestion_detection_interval_ms s"
  by (simp add: detect_step_def Let_def event_step_def event_effects_def bump_stats_def
      enableECNMarking_def congestion_emit_def reweighted_def path_fold_interval)

lemma detect_step_stats_find:
  "um_find (m_congestion_stats (detect_step E reading i s)) j =
     (if j = i \<and> changes reading s i
      then Some (count_event (m_path_rebalancing_enabled s) (ci_state (new_info E reading s i))
             (um_at (default_congestion_stats E) (m_congestion_stats s) i))
      else um_find (m_congestion_stats s) j)"
  by (auto simp: detect_step_def Let_def um_find_modify dest: changes_present)

lemma detect_step_paths:
  "um_find (m_path_info (detect_step E reading i s)) p =
     (if changes reading s i \<and> ci_state (new_info E reading s i) = CONGESTED \<and> m_path_rebalancing_enabled s
      then map_option path_update (um_find (m_path_info s) p) else um_find (m_path_info s) p)"
  by (auto simp: detect_step_def Let_def event_step_paths dest: changes_present)

lemma detect_all_interval:
  "m_congestion_detection_interval_ms (detect_all E reading ks s) = m_congestion_detection_interval_ms s"
  by (induction ks arbitrary: s) simp_all

lemma detect_all_stats_find:
  "distinct ks \<Longrightarrow>
   um_find (m_congestion_stats (detect_all E reading ks s)) j =
     (if j \<in> set ks \<and> changes reading s j
      then Some (count_event (m_path_rebalancing_enabled s) (ci_state (new_info E reading s j))
             (um_at (default_congestion_stats E) (m_congestion_stats s) j))
      else um_find (m_congestion_stats s) j)"
proof (induction ks arbitrary: s)
  case Nil
  then show ?case by simp
next
  case (Cons k ks)
  then show ?case
    by (cases "j = k") (auto simp: detect_step_stats_find detect_step_stats changes_step new_info_step)
qed

lemma detect_all_paths:
  "distinct ks \<Longrightarrow>
   um_find (m_path_info (detect_all E reading ks s)) p =
     (if m_path_rebalancing_enabled s \<and>
         (\<exists>i \<in> set ks. changes reading s i \<and> ci_state (new_info E reading s i) = CONGESTED)
      then map_option path_update (um_find (m_path_info s) p) else um_find (m_path_info s) p)"
proof (induction ks arbitrary: s)
  case Nil
  then show ?case by simp
next
  case (Cons k ks)
  have "(\<exists>i \<in> set ks. changes reading (detect_step E reading k s) i \<and>
        ci_state (new_info E reading (detect_step E reading k s) i) = CONGESTED) \<longleftrightarrow>
      (\<exists>i \<in> set ks. changes reading s i \<and> ci_state (new_info E reading s i) = CONGESTED)"
  proof (rule bex_cong [OF refl])
    fix i assume "i \<in> set ks"
    with Cons.prems have "i \<noteq> k" by auto
    then show "(changes reading (detect_step E reading k s) i \<and>
        ci_state (new_info E reading (detect_step E reading k s) i) = CONGESTED) =
      (changes reading s i \<and> ci_state (new_info E reading s i) = CONGESTED)"
      by (simp add: changes_step new_info_step)
  qed
  with Cons show ?case
    by (auto simp: detect_step_paths option.map_comp comp_def)
qed

lemma queue_events_pop: "new \<noteq> [] \<Longrightarrow> queue_events q new = pop_to_100 (q @ new)"
  by (simp add: queue_events_def pop_to_100_drop)

lemma detect_all_queue:
  "distinct ks \<Longrightarrow>
   m_congestion_events (detect_all E reading ks s) =
     queue_events (m_congestion_events s) (map (new_info E reading s) (filter (changes reading s) ks))"
proof (induction ks arbitrary: s)
  case Nil
  then show ?case by (simp add: queue_events_def)
next
  case (Cons k ks)
  define new where "new = map (new_info E reading s) (filter (changes reading s) ks)"
  have ih: "m_congestion_events (detect_all E reading (k # ks) s) =
      queue_events (m_congestion_events (detect_step E reading k s)) new"
    using Cons by (simp add: filter_changes_step map_new_info_step new_def)
  show ?case
  proof (cases "changes reading s k")
    case True
    have "queue_events (pop_to_100 (q @ [x])) new = queue_events q (x # new)" for q x
      using pop_to_100_append [of "q @ [x]" new]
      by (cases "new = []") (simp_all add: queue_events_pop, simp add: queue_events_def)
    moreover from True have "map (new_info E reading s) (filter (changes reading s) (k # ks)) = new_info E reading s k # new"
      by (simp add: new_def)
    ultimately show ?thesis unfolding ih using True by (simp only: detect_step_events if_True)
  next
    case False
    then show ?thesis unfolding ih by (simp add: detect_step_events new_def)
  qed
qed

text \<open>A pass over the interfaces in the order \<open>ks\<close> is the simultaneous update.\<close>

lemma detect_refines:
  assumes "um_wf (m_interface_congestion s)"
  defines "order \<equiv> um_keys (m_interface_congestion s)"
  shows "\<exists>s'. detectCongestion E reading s = Normal s' \<and>
    congestion_abs E s' = spec_detect E reading order (congestion_abs E s)"
proof (intro exI conjI)
  let ?s' = "detect_all E reading order s"
  show "detectCongestion E reading s = Normal ?s'"
    by (simp add: detectCongestion_fold order_def)
  have distinct: "distinct order" using assms(1) by (simp add: order_def um_wf_def)
  have member: "i \<in> set order \<longleftrightarrow> um_find (m_interface_congestion s) i \<noteq> None" for i
    by (simp add: order_def um_keys_find)
  note changed = changes_present [of reading s]
  note entered = enters_changes [of reading s _ E]
  have "um_find (m_interface_congestion ?s') i = map_option (detected (reading i)) (um_find (m_interface_congestion s) i)" for i
    using member [of i] by (simp add: detect_all_find [OF distinct])
  moreover have "um_find (m_congestion_stats ?s') i =
      (case enters reading (um_find (m_interface_congestion s)) i of
         None \<Rightarrow> um_find (m_congestion_stats s) i
       | Some state \<Rightarrow> Some (count_event (m_path_rebalancing_enabled s) state
           (case um_find (m_congestion_stats s) i of None \<Rightarrow> default_congestion_stats E | Some st \<Rightarrow> st)))" for i
    using changed [of i] member [of i] by (auto simp: detect_all_stats_find [OF distinct] entered um_at_def)
  moreover have "um_find (m_path_info ?s') p =
      (if m_path_rebalancing_enabled s \<and> (\<exists>i. enters reading (um_find (m_interface_congestion s)) i = Some CONGESTED)
       then map_option path_update (um_find (m_path_info s) p) else um_find (m_path_info s) p)" for p
    using changed member by (simp add: detect_all_paths [OF distinct] entered) blast
  moreover have "m_congestion_events ?s' = queue_events (m_congestion_events s)
      (map (the \<circ> (\<lambda>i. map_option (detected (reading i)) (um_find (m_interface_congestion s) i)))
        (filter (\<lambda>i. enters reading (um_find (m_interface_congestion s)) i \<noteq> None) order))"
    by (auto simp: detect_all_queue [OF distinct] entered new_info_def um_at_def
        intro!: arg_cong [where f = "queue_events _"] map_cong dest!: changed split: option.split)
  moreover have "published (congestion_io ?s') APPL_DB (ecn_key E i) =
      (if enters reading (um_find (m_interface_congestion s)) i = Some WARNING
       then Some (ecn_fvs (m_ecn_threshold_percent s))
       else published (congestion_io s) APPL_DB (ecn_key E i))" for i
    using changed [of i] member [of i]
    by (auto simp: detect_all_io [OF distinct] published_map [OF ecn_key_inj] entered)
  moreover have "published (congestion_io ?s') STATE_DB k = published (congestion_io s) STATE_DB k" for k
    by (simp add: detect_all_io [OF distinct] published_map_other_db)
  ultimately show "congestion_abs E ?s' = spec_detect E reading order (congestion_abs E s)"
    by (intro congestion_abs_eqI)
      (simp_all only: spec_detect_simps congestion_abs_simps detect_all_frame detect_all_interval)
qed

section \<open>The periodic task\<close>

lemma timers_refine:
  "\<exists>s'. out_bind (rebalancing_block now s) (statistics_block E now) = Normal s' \<and>
    congestion_abs E s' = spec_timers now (congestion_abs E s)"
proof -
  define a1 where "a1 = (if m_path_rebalancing_enabled s \<and> 1000 \<le> now - m_last_path_rebalance s
    then (spec_rebalance (congestion_abs E s))\<lparr>cg_rebalanced := now\<rparr> else congestion_abs E s)"
  have "\<exists>s1. rebalancing_block now s = Normal s1 \<and> congestion_abs E s1 = a1"
    by (simp add: a1_def rebalancing_block_def rebalancePaths_Normal rebalance_refines)
  then obtain s1 where 1: "rebalancing_block now s = Normal s1" "congestion_abs E s1 = a1" by blast
  obtain s2 where "updateCongestionStatistics E s1 = Normal s2" "congestion_abs E s2 = spec_report a1"
    using report_refines [of E s1] 1(2) by blast
  then have "\<exists>s'. statistics_block E now s1 = Normal s' \<and> congestion_abs E s' =
      (if 5000 \<le> now - cg_reported a1 then (spec_report a1)\<lparr>cg_reported := now\<rparr> else a1)"
    by (simp add: statistics_block_def 1(2) flip: 1(2))
  moreover have "spec_timers now (congestion_abs E s) =
      (if 5000 \<le> now - cg_reported a1 then (spec_report a1)\<lparr>cg_reported := now\<rparr> else a1)"
    by (simp only: spec_timers_def Let_def congestion_abs_simps a1_def [symmetric])
  ultimately show ?thesis by (simp only: 1(1) out_bind.simps)
qed

text \<open>
  The undefined member \<open>updateCongestionState\<close> runs between the detection pass and the timers,
  on the state the pass leaves; if it fails, so does the periodic task.
\<close>

lemma periodic_refines:
  assumes "detectCongestion E reading s = Normal s1"
  shows "if ucast (m_congestion_detection_interval_ms s) \<le> now - m_last_congestion_check s
    then (case updateCongestionState E s1 of
        Normal s2 \<Rightarrow> \<exists>s'. congestion_doPeriodicTask E reading now s = Normal s' \<and>
          congestion_abs E s' = spec_timers now ((congestion_abs E s2)\<lparr>cg_checked := now\<rparr>)
      | Throws e s2 \<Rightarrow> congestion_doPeriodicTask E reading now s = Throws e s2
      | Undefined u \<Rightarrow> congestion_doPeriodicTask E reading now s = Undefined u)
    else \<exists>s'. congestion_doPeriodicTask E reading now s = Normal s' \<and>
      congestion_abs E s' = spec_timers now (congestion_abs E s)"
proof (cases "ucast (m_congestion_detection_interval_ms s) \<le> now - m_last_congestion_check s")
  case True
  show ?thesis
  proof (cases "updateCongestionState E s1")
    case (Normal s2)
    with True assms timers_refine [of now "s2\<lparr>m_last_congestion_check := now\<rparr>" E] show ?thesis
      by (simp add: congestion_doPeriodicTask_def detection_block_def)
  qed (use True assms in \<open>simp_all add: congestion_doPeriodicTask_def detection_block_def\<close>)
next
  case False
  with timers_refine [of now s E] show ?thesis
    by (simp add: congestion_doPeriodicTask_def detection_block_def)
qed

section \<open>Properties\<close>

text \<open>
  Property C4: the congestion manager implements its abstract specification. A detection pass
  is one simultaneous update of the interfaces, their statistics, the paths, the event queue
  and the published markings, whose only trace of the hash map's iteration order is the
  order of the queued events; rebalancing and the statistics pass are the operations of the
  specification. The periodic task, when the detection interval is over, runs the detection
  pass and the member \<open>updateCongestionState\<close>, of which nothing is assumed, on its result:
  if that returns, the two timers of the specification act on what it left, and if it fails,
  the task fails in the same way; before the interval is over only the timers act.
\<close>

theorem congestion_manager_refines_spec:
  assumes "um_wf (m_interface_congestion s)"
  shows "\<exists>order s1. distinct order \<and> set order = dom (cg_interfaces (congestion_abs E s)) \<and>
    detectCongestion E reading s = Normal s1 \<and>
    congestion_abs E s1 = spec_detect E reading order (congestion_abs E s) \<and>
    (\<exists>s'. rebalancePaths s = Normal s' \<and> congestion_abs E s' = spec_rebalance (congestion_abs E s)) \<and>
    (\<exists>s'. updateCongestionStatistics E s = Normal s' \<and> congestion_abs E s' = spec_report (congestion_abs E s)) \<and>
    (if ucast (m_congestion_detection_interval_ms s) \<le> now - m_last_congestion_check s
     then (case updateCongestionState E s1 of
         Normal s2 \<Rightarrow> \<exists>s'. congestion_doPeriodicTask E reading now s = Normal s' \<and>
           congestion_abs E s' = spec_timers now ((congestion_abs E s2)\<lparr>cg_checked := now\<rparr>)
       | Throws e s2 \<Rightarrow> congestion_doPeriodicTask E reading now s = Throws e s2
       | Undefined u \<Rightarrow> congestion_doPeriodicTask E reading now s = Undefined u)
     else \<exists>s'. congestion_doPeriodicTask E reading now s = Normal s' \<and>
       congestion_abs E s' = spec_timers now (congestion_abs E s))"
proof -
  obtain s1 where s1: "detectCongestion E reading s = Normal s1"
      "congestion_abs E s1 = spec_detect E reading (um_keys (m_interface_congestion s)) (congestion_abs E s)"
    using detect_refines [OF assms] by blast
  show ?thesis
  proof (rule exI [of _ "um_keys (m_interface_congestion s)"], rule exI [of _ s1], intro conjI)
    show "distinct (um_keys (m_interface_congestion s))" using assms by (simp add: um_wf_def)
    show "set (um_keys (m_interface_congestion s)) = dom (cg_interfaces (congestion_abs E s))"
      by (auto simp: um_keys_find dom_def)
    show "\<exists>s'. rebalancePaths s = Normal s' \<and> congestion_abs E s' = spec_rebalance (congestion_abs E s)"
      by (simp add: rebalancePaths_Normal rebalance_refines)
  qed (rule s1 | rule report_refines | rule periodic_refines [OF s1(1)])+
qed

text \<open>The example's undefined member switches rebalancing off.\<close>

definition congestion_ex_env2 :: "64 congestion_env" where
  "congestion_ex_env2 =
     congestion_ex_env\<lparr>updateCongestionState := \<lambda>s. Normal (s\<lparr>m_path_rebalancing_enabled := False\<rparr>)\<rparr>"

theorem congestion_manager_refines_spec_witness:
  "\<exists>order s'. distinct order \<and> set order = {''Ethernet0'', ''Ethernet4''} \<and>
    congestion_doPeriodicTask congestion_ex_env2 congestion_ex_reading 1000 congestion_ex = Normal s' \<and>
    congestion_abs congestion_ex_env2 s' = spec_timers 1000
      ((spec_detect congestion_ex_env2 congestion_ex_reading order (congestion_abs congestion_ex_env2 congestion_ex))
         \<lparr>cg_rebalancing := False, cg_checked := 1000\<rparr>) \<and>
    cg_marking (congestion_abs congestion_ex_env2 s') ''Ethernet0'' = Some (ecn_fvs 80)"
proof -
  have dom: "dom (um_find (m_interface_congestion congestion_ex)) = {''Ethernet0'', ''Ethernet4''}"
    by (auto simp: congestion_ex_def um_find_def dom_def)
  have wf: "um_wf (m_interface_congestion congestion_ex)"
    by (simp add: um_wf_def um_keys_def congestion_ex_def)
  have off: "congestion_abs E (s\<lparr>m_path_rebalancing_enabled := False\<rparr>) = (congestion_abs E s)\<lparr>cg_rebalancing := False\<rparr>"
    for E :: "64 congestion_env" and s
    by (simp add: congestion_abs_def)
  have update: "updateCongestionState congestion_ex_env2 s = Normal (s\<lparr>m_path_rebalancing_enabled := False\<rparr>)" for s
    by (simp add: congestion_ex_env2_def)
  have due: "ucast (m_congestion_detection_interval_ms congestion_ex) \<le> (1000 :: 64 word) - m_last_congestion_check congestion_ex"
    by (simp add: congestion_ex_def UECongestionManager_def)
  from congestion_manager_refines_spec [OF wf, of congestion_ex_env2 congestion_ex_reading 1000] due obtain order s' where
    order: "distinct order" "set order = {''Ethernet0'', ''Ethernet4''}"
      "congestion_doPeriodicTask congestion_ex_env2 congestion_ex_reading 1000 congestion_ex = Normal s'"
    and abs: "congestion_abs congestion_ex_env2 s' = spec_timers 1000
      ((spec_detect congestion_ex_env2 congestion_ex_reading order (congestion_abs congestion_ex_env2 congestion_ex))
         \<lparr>cg_rebalancing := False, cg_checked := 1000\<rparr>)"
    unfolding congestion_abs_simps dom by (auto simp: update off)
  moreover have "cg_marking (congestion_abs congestion_ex_env2 s') ''Ethernet0'' = Some (ecn_fvs 80)"
    unfolding abs
    by (simp add: spec_timers_def spec_report_def spec_rebalance_def enters_def Let_def
        congestion_ex_def UECongestionManager_def um_find_def congestion_ex_reading_def congestion_ex_env_def classify_def)
  ultimately show ?thesis by blast
qed

end
