(* ===== verification/Provider.thy ===== *)
theory Provider
  imports Wire_Headers
begin

text \<open>
  \<open>ue_provider.c\<close>, the libfabric provider: the deferrable send and the older multipath
  setup; and how the older, 64-bit-addressed data path (\<open>ue_rdma.c\<close>, \<open>ue_provider.c\<close>)
  embeds, in its pools and its multipath setup, into the dual-stack one (\<open>ue_transport_v4v6.h\<close>). Allocation, posting and the path
  query are not in the repository, nor are the structures of an endpoint and of a
  transmission entry: parameters, with the members the code uses.
\<close>

section \<open>Deferrable send\<close>

datatype tx_op = UE_OP_SEND_DEFER | Tx_other nat

record ue_tx_entry =
  tx_type :: tx_op
  tx_buf :: "64 word"
  tx_len :: "64 word"
  tx_dest_addr :: "64 word"
  tx_context :: "64 word"

record 'ep tx_env =
  ue_alloc_tx_entry :: "'ep \<Rightarrow> ue_tx_entry option \<times> 'ep"
  ue_post_send_immediate :: "ue_tx_entry \<Rightarrow> 'ep \<Rightarrow> int \<times> 'ep"
  FI_EAGAIN :: int

definition ue_send_defer ::
  "'ep tx_env \<Rightarrow> 64 word \<Rightarrow> 64 word \<Rightarrow> 64 word \<Rightarrow> 64 word \<Rightarrow> 'ep \<Rightarrow> int \<times> 'ep" where
  "ue_send_defer E buf len dest_addr ctxt ep =
     (case ue_alloc_tx_entry E ep of
        (None, ep') \<Rightarrow> (- FI_EAGAIN E, ep')
      | (Some tx_entry, ep') \<Rightarrow>
          ue_post_send_immediate E
            (tx_entry\<lparr>tx_type := UE_OP_SEND_DEFER, tx_buf := buf, tx_len := len,
                      tx_dest_addr := dest_addr, tx_context := ctxt\<rparr>) ep')"

text \<open>
  The documented behaviour of a bounded transmission queue: an entry is free until it is
  posted, a post puts it at the end of the queue, and posting to a queue that gave out an
  entry succeeds.
\<close>

locale tx_queue =
  fixes E :: "'ep tx_env" and queued :: "'ep \<Rightarrow> ue_tx_entry list" and capacity :: nat
  assumes alloc_full: "capacity \<le> length (queued ep) \<Longrightarrow> ue_alloc_tx_entry E ep = (None, ep)"
    and alloc_free: "length (queued ep) < capacity \<Longrightarrow>
      \<exists>tx ep'. ue_alloc_tx_entry E ep = (Some tx, ep') \<and> queued ep' = queued ep"
    and post_queues: "\<exists>ep'. ue_post_send_immediate E tx ep = (0, ep') \<and> queued ep' = queued ep @ [tx]"
begin

lemma send_full: "capacity \<le> length (queued ep) \<Longrightarrow> ue_send_defer E b l d c ep = (- FI_EAGAIN E, ep)"
  by (simp add: ue_send_defer_def alloc_full)

lemma send_free:
  assumes "length (queued ep) < capacity"
  shows "\<exists>ep'. ue_send_defer E b l d c ep = (0, ep') \<and>
    queued ep' = queued ep @ [\<lparr>tx_type = UE_OP_SEND_DEFER, tx_buf = b, tx_len = l, tx_dest_addr = d, tx_context = c\<rparr>]"
proof -
  obtain tx ep1 where "ue_alloc_tx_entry E ep = (Some tx, ep1)" and "queued ep1 = queued ep"
    using alloc_free [OF assms] by blast
  moreover obtain ep2 where "ue_post_send_immediate E
      \<lparr>tx_type = UE_OP_SEND_DEFER, tx_buf = b, tx_len = l, tx_dest_addr = d, tx_context = c\<rparr> ep1 = (0, ep2)"
      and "queued ep2 = queued ep1 @
        [\<lparr>tx_type = UE_OP_SEND_DEFER, tx_buf = b, tx_len = l, tx_dest_addr = d, tx_context = c\<rparr>]"
    using post_queues by blast
  ultimately show ?thesis by (cases tx) (simp add: ue_send_defer_def)
qed

end

text \<open>A run of sends: the codes returned and the endpoint at the end.\<close>

fun send_all ::
  "'ep tx_env \<Rightarrow> (64 word \<times> 64 word \<times> 64 word \<times> 64 word) list \<Rightarrow> 'ep \<Rightarrow> int list \<times> 'ep" where
  "send_all E [] ep = ([], ep)"
| "send_all E ((b, l, d, c) # rs) ep =
     (let (code, ep') = ue_send_defer E b l d c ep; (codes, ep'') = send_all E rs ep'
      in (code # codes, ep''))"

fun defer_entry :: "64 word \<times> 64 word \<times> 64 word \<times> 64 word \<Rightarrow> ue_tx_entry" where
  "defer_entry (b, l, d, c) =
     \<lparr>tx_type = UE_OP_SEND_DEFER, tx_buf = b, tx_len = l, tx_dest_addr = d, tx_context = c\<rparr>"

text \<open>An instance: the queue itself, with a capacity.\<close>

definition list_queue :: "nat \<Rightarrow> ue_tx_entry list tx_env" where
  "list_queue n =
     \<lparr>ue_alloc_tx_entry = (\<lambda>q. (if length q < n then Some (defer_entry (0, 0, 0, 0)) else None, q)),
      ue_post_send_immediate = (\<lambda>tx q. (0, q @ [tx])), FI_EAGAIN = 11\<rparr>"

interpretation list_queue: tx_queue "list_queue n" id n for n
  by unfold_locales (simp_all add: list_queue_def)

section \<open>Multipath\<close>

text \<open>
  The structure \<open>ue_multipath\<close> is not in the repository; its counters are taken at the width
  they have in \<open>ue_multipath_v2\<close>, and \<open>conv\<close> converts the query's result to the type of
  \<open>num_paths\<close>.
\<close>

record path_stat_v1 =
  v1_packets_sent :: "32 word"
  v1_congestion_level :: "32 word"
  v1_rtt :: "32 word"

record ue_multipath =
  v1_num_paths :: int
  v1_entropy_seed :: "32 word"
  v1_path_stats :: "path_stat_v1 list"

definition clear_path_v1 :: "path_stat_v1 \<Rightarrow> path_stat_v1" where
  "clear_path_v1 p = p\<lparr>v1_packets_sent := 0, v1_congestion_level := 0, v1_rtt := 0\<rparr>"

definition ue_setup_multipath ::
  "(int \<Rightarrow> int) \<Rightarrow> (64 word \<Rightarrow> int) \<Rightarrow> 32 word \<Rightarrow> 64 word \<Rightarrow> ue_multipath \<Rightarrow> ub + ue_multipath" where
  "ue_setup_multipath conv query r dest_addr mp =
     (let n = conv (query dest_addr)
      in case clear_paths clear_path_v1 0 (nat n) (v1_path_stats mp) of
           Inl u \<Rightarrow> Inl u
         | Inr ps \<Rightarrow> Inr (mp\<lparr>v1_num_paths := n, v1_entropy_seed := r, v1_path_stats := ps\<rparr>))"

text \<open>What the older code knows of a dual-stack path and of dual-stack multipath state.\<close>

definition path_v1 :: "path_stat \<Rightarrow> path_stat_v1" where
  "path_v1 p =
     \<lparr>v1_packets_sent = ps_packets_sent p, v1_congestion_level = ps_congestion_level p, v1_rtt = ps_rtt p\<rparr>"

definition multipath_v1 :: "ue_multipath_v2 \<Rightarrow> ue_multipath" where
  "multipath_v1 mp =
     \<lparr>v1_num_paths = uint (num_paths mp), v1_entropy_seed = entropy_seed mp,
      v1_path_stats = map path_v1 (path_stats mp)\<rparr>"

fun map_ok :: "('a \<Rightarrow> 'b) \<Rightarrow> ub + 'a \<Rightarrow> ub + 'b" where
  "map_ok f (Inl u) = Inl u"
| "map_ok f (Inr x) = Inr (f x)"

lemma clear_paths_simulation:
  assumes "\<And>p. h (clear p) = clear' (h p)"
  shows "clear_paths clear' 0 n (map h ps) = map_ok (map h) (clear_paths clear 0 n ps)"
proof (cases "n \<le> length ps")
  case True
  then show ?thesis by (auto simp: clear_paths_in_bounds assms)
next
  case False
  then show ?thesis by (simp add: clear_paths_out)
qed

section \<open>The older pool inside the dual-stack one\<close>

text \<open>
  A 64-bit address as an address of version 6, and a connection of \<open>ue_rdma.c\<close> as a
  dual-stack connection to a port.
\<close>

definition v6_of :: "64 word \<Rightarrow> ue_ip_addr" where
  "v6_of a = replicate 8 0 @ host_bytes False 8 a"

definition as_v2 :: "16 word \<Rightarrow> ue_connection \<Rightarrow> ue_connection_v2" where
  "as_v2 port c =
     \<lparr>local_conn_id = local_id c, remote_conn_id = remote_id c,
      c_local_addr = v6_of (local_addr c), c_remote_addr = v6_of (remote_addr c),
      c_local_port = port, c_remote_port = port, c_ip_version = 6, c_state = conn_state c,
      c_last_activity = last_activity c\<rparr>"

lemma v6_of_compare: "ue_addr_compare (v6_of a) (v6_of b) 6 = 0 \<longleftrightarrow> a = b"
  by (simp add: ue_addr_compare_def v6_of_def memcmp_zero field64.enc_eq_iff)

lemma matches_as_v2: "matches_v2 (v6_of a, port, 6) (as_v2 port c) \<longleftrightarrow> remote_addr c = a"
  by (simp add: matches_v2_def as_v2_def v6_of_compare)

text \<open>The dual-stack connections the older ones are embedded as.\<close>

definition embeds :: "16 word \<Rightarrow> ue_connection_v2 \<Rightarrow> bool" where
  "embeds port c \<longleftrightarrow> c_ip_version c = 6 \<and> c_remote_port c = port"

lemma as_v2_simps:
  "embeds port (as_v2 port c)" "c_last_activity (as_v2 port c) = last_activity c"
  "(as_v2 port c)\<lparr>c_last_activity := now\<rparr> = as_v2 port (c\<lparr>last_activity := now\<rparr>)"
  "embeds port (d\<lparr>c_last_activity := now\<rparr>) = embeds port d"
  by (simp_all add: embeds_def as_v2_def)

text \<open>A lookup among other connections: it passes over them.\<close>

lemma lookup_among_others:
  assumes "filter (embeds port) pool2 = map (as_v2 port) pool"
    and "ue_get_ephemeral_conn E now raddr pool = (r, pool')"
    and "ue_get_ephemeral_conn_v2 E now (v6_of raddr, port, 6) pool2 = (r2, pool2')"
  shows "filter (embeds port) pool2' = map (as_v2 port) pool' \<and>
    filter (Not \<circ> embeds port) pool2' = filter (Not \<circ> embeds port) pool2 \<and>
    (case (r, r2) of
       (None, None) \<Rightarrow> pool' = pool
     | (Some i, Some j) \<Rightarrow> i < length pool' \<and> j < length pool2' \<and> remote_addr (pool' ! i) = raddr \<and>
         last_activity (pool' ! i) = now \<and> pool2' ! j = as_v2 port (pool' ! i)
     | _ \<Rightarrow> False)"
  using assms
proof (induction pool2 arbitrary: pool r pool' r2 pool2')
  case Nil
  then show ?case by auto
next
  case (Cons d pool2)
  show ?case
  proof (cases "embeds port d")
    case False
    then have "\<not> matches_v2 (v6_of raddr, port, 6) d" by (auto simp: embeds_def matches_v2_def)
    with Cons.prems(3) obtain r3 pool3 where
      3: "ue_get_ephemeral_conn_v2 E now (v6_of raddr, port, 6) pool2 = (r3, pool3)" "r2 = map_option Suc r3" "pool2' = d # pool3"
      by (auto simp: Let_def split: prod.splits)
    with Cons.IH [OF _ Cons.prems(2) 3(1)] Cons.prems(1) False show ?thesis by (auto split: option.splits)
  next
    case True
    with Cons.prems(1) obtain c rest where pool: "pool = c # rest" "d = as_v2 port c"
      "filter (embeds port) pool2 = map (as_v2 port) rest" by (auto simp: Cons_eq_map_conv)
    show ?thesis
    proof (cases "remote_addr c = raddr \<and> time_before E now (last_activity c + UE_CONN_TIMEOUT E)")
      case True
      with Cons.prems pool show ?thesis by (auto simp: matches_as_v2 as_v2_simps)
    next
      case False
      obtain q pool1 where 1: "ue_get_ephemeral_conn E now raddr rest = (q, pool1)" by fastforce
      obtain r3 pool3 where 3: "ue_get_ephemeral_conn_v2 E now (v6_of raddr, port, 6) pool2 = (r3, pool3)" by fastforce
      have "r = map_option Suc q" "pool' = c # pool1" "r2 = map_option Suc r3" "pool2' = d # pool3"
        using Cons.prems(2,3) False by (auto simp: pool(1,2) 1 3 matches_as_v2 as_v2_simps)
      with Cons.IH [OF pool(3) 1 3] show ?thesis by (auto simp: pool as_v2_simps split: option.splits)
    qed
  qed
qed

section \<open>Properties\<close>

text \<open>
  Property C9: in the pool lookup the dual-stack code refines the older one. Let a dual-stack
  pool hold, among any connections of other versions and to other ports, the older pool's
  connections in their order, embedded as IPv6 connections to one port. Then a remote write
  in either version finds a connection exactly when the other does, it is the same connection
  and refreshed in both, the pools correspond afterwards, and the other connections of the
  dual-stack pool are untouched. What is posted on it is the caller's buffer, length and
  remote key, in the older code with the remote address as well. Creating and posting are
  whatever they are in either version, and without a connection only the dual-stack code
  returns \<open>-ENOMEM\<close> when none can be created.
\<close>

theorem dual_stack_refines_rdma:
  assumes "filter (embeds port) pool2 = map (as_v2 port) pool"
  shows "\<exists>r pool' r2 pool2'.
    filter (embeds port) pool2' = map (as_v2 port) pool' \<and>
    filter (Not \<circ> embeds port) pool2' = filter (Not \<circ> embeds port) pool2 \<and>
    (case (r, r2) of
       (None, None) \<Rightarrow> pool' = pool
     | (Some i, Some j) \<Rightarrow> i < length pool' \<and> j < length pool2' \<and> remote_addr (pool' ! i) = raddr \<and>
         last_activity (pool' ! i) = now \<and> pool2' ! j = as_v2 port (pool' ! i)
     | _ \<Rightarrow> False) \<and>
    ue_rdma_write_immediate E now create post buf len raddr rkey pool =
      (case r of
         Some i \<Rightarrow> post (Pooled i) buf len raddr rkey pool'
       | None \<Rightarrow> (case create raddr pool' of
           (None, p) \<Rightarrow> post Null_conn buf len raddr rkey p
         | (Some c, p) \<Rightarrow> post (Temporary c) buf len raddr rkey p)) \<and>
    ue_rdma_write_immediate_v2 E now create2 post2 ENOMEM buf len (v6_of raddr, port, 6) rkey pool2 =
      (case r2 of
         Some j \<Rightarrow> post2 (Pooled j) buf len rkey pool2'
       | None \<Rightarrow> (case create2 (v6_of raddr, port, 6) pool2' of
           (None, p) \<Rightarrow> (- ENOMEM, p)
         | (Some c, p) \<Rightarrow> post2 (Temporary c) buf len rkey p))"
proof -
  obtain r pool' where 1: "ue_get_ephemeral_conn E now raddr pool = (r, pool')" by fastforce
  obtain r2 pool2' where 2: "ue_get_ephemeral_conn_v2 E now (v6_of raddr, port, 6) pool2 = (r2, pool2')" by fastforce
  show ?thesis
    using lookup_among_others [OF assms 1 2]
    by (intro exI [of _ r] exI [of _ pool'] exI [of _ r2] exI [of _ pool2'])
      (simp add: ue_rdma_write_immediate_def ue_rdma_write_immediate_v2_def 1 2 split: option.splits)
qed

definition rdma_ex_conn :: "64 word \<Rightarrow> ue_connection" where
  "rdma_ex_conn t = \<lparr>local_id = 1, remote_id = 2, local_addr = 3, remote_addr = 4, conn_state = 0,
     last_activity = t\<rparr>"

text \<open>
  A pool with an IPv4 connection before the two older ones, of which the first is too old; the
  posts answer with what they are given.
\<close>

theorem dual_stack_refines_rdma_witness:
  "\<exists>pool2'. ue_rdma_write_immediate_v2 pool_ex_env 9000 (\<lambda>_ p. (None :: unit option, p))
      (\<lambda>c b l r p. (case c of Pooled j \<Rightarrow> uint (b + l) + uint r | _ \<Rightarrow> 0, p)) 12 4096 64 (v6_of 4, 4793, 6) 7
      ((as_v2 4793 (rdma_ex_conn 8000))\<lparr>c_ip_version := 4\<rparr> # map (as_v2 4793) [rdma_ex_conn 0, rdma_ex_conn 8000]) =
      (4167, pool2') \<and>
    filter (embeds 4793) pool2' = map (as_v2 4793) [rdma_ex_conn 0, rdma_ex_conn 9000]"
proof -
  let ?pool = "[rdma_ex_conn 0, rdma_ex_conn 8000]"
  let ?pool2 = "(as_v2 4793 (rdma_ex_conn 8000))\<lparr>c_ip_version := 4\<rparr> # map (as_v2 4793) ?pool"
  have pools: "filter (embeds 4793) ?pool2 = map (as_v2 4793) ?pool"
    by (simp add: embeds_def as_v2_def)
  have old: "ue_rdma_write_immediate pool_ex_env 9000 (\<lambda>_ p. (None :: unit option, p)) (\<lambda>c b l a r p. (case c of Pooled i \<Rightarrow> 1 | _ \<Rightarrow> 0, p))
      4096 64 4 7 ?pool = (1, [rdma_ex_conn 0, rdma_ex_conn 9000])"
    by (simp add: ue_rdma_write_immediate_def pool_ex_env_def signed_before_def rdma_ex_conn_def)
  have sum: "uint (4096 + 64 :: 64 word) + uint (7 :: 32 word) = 4167" by simp
  from dual_stack_refines_rdma [OF pools, of 4 9000 pool_ex_env "\<lambda>_ p. (None :: unit option, p)"
      "\<lambda>c b l a r p. (case c of Pooled i \<Rightarrow> 1 | _ \<Rightarrow> 0, p)" 4096 64 7 "\<lambda>_ p. (None :: unit option, p)"
      "\<lambda>c b l r p. (case c of Pooled j \<Rightarrow> uint (b + l) + uint r | _ \<Rightarrow> 0, p)" 12]
  show ?thesis
    unfolding old by (auto split: option.splits simp: sum)
qed

text \<open>
  The dual-stack multipath setup refines the older one with an 8-bit path count:
  given the same answer of the path query and the same random number, forgetting the next
  hops and weights turns its result into that of the older setup, out-of-bounds stores
  included.
\<close>

theorem multipath_v2_refines_v1:
  assumes "(if ipv = 4 then q4 (v4_addr dest) else q6 dest) = query dest_addr"
  shows "map_ok multipath_v1 (ue_setup_multipath_v2 q4 q6 r dest ipv mp) =
    ue_setup_multipath (\<lambda>i. uint (word_of_int i :: 8 word)) query r dest_addr (multipath_v1 mp)"
proof -
  define n :: "8 word" where "n = word_of_int (query dest_addr)"
  have n: "(if ipv = 4 then word_of_int (q4 (v4_addr dest)) else word_of_int (q6 dest)) = n"
    using assms by (auto simp: n_def)
  have sim: "clear_paths clear_path_v1 0 (unat n) (map path_v1 (path_stats mp)) =
      map_ok (map path_v1) (clear_paths clear_path 0 (unat n) (path_stats mp))"
    by (rule clear_paths_simulation) (simp add: path_v1_def clear_path_def clear_path_v1_def)
  show ?thesis
    by (cases "clear_paths clear_path 0 (unat n) (path_stats mp)")
      (simp_all add: ue_setup_multipath_v2_def ue_setup_multipath_def Let_def n multipath_v1_def sim
        flip: n_def unat_eq_nat_uint)
qed

theorem multipath_v2_refines_v1_witness:
  "ue_setup_multipath (\<lambda>i. uint (word_of_int i :: 8 word)) (\<lambda>_. 3) 5 0
     (multipath_v1 \<lparr>num_paths = 0, entropy_seed = 0, mp_ip_version = 4, path_stats = []\<rparr>) = Inl Out_of_bounds"
  using multipath_v2_refines_v1 [of 4 "\<lambda>_. 3" "[]" "\<lambda>_. 3" "\<lambda>_. 3" 0 5
      "\<lparr>num_paths = 0, entropy_seed = 0, mp_ip_version = 4, path_stats = []\<rparr>"]
  by (simp add: ue_setup_multipath_v2_def Let_def clear_paths_out)

text \<open>
  With a bounded transmission queue, a run of deferrable sends posts the
  requests in order until the queue is full, each with its own buffer, length, destination
  and context; every further send returns \<open>-FI_EAGAIN\<close> and posts nothing.
\<close>

theorem deferred_sends_in_order:
  assumes "tx_queue E queued capacity" and "send_all E rs ep = (codes, ep')"
    and "k = min (length rs) (capacity - length (queued ep))"
  shows "codes = replicate k 0 @ replicate (length rs - k) (- FI_EAGAIN E) \<and>
    queued ep' = queued ep @ map defer_entry (take k rs)"
  using assms(2,3)
proof (induction rs arbitrary: ep codes k)
  case Nil
  then show ?case by simp
next
  case (Cons x rs)
  obtain b l d c where x: "x = (b, l, d, c)" by (cases x)
  show ?case
  proof (cases "length (queued ep) < capacity")
    case True
    from tx_queue.send_free [OF assms(1) this, of b l d c] obtain ep1 where
      ep1: "ue_send_defer E b l d c ep = (0, ep1)" "queued ep1 = queued ep @ [defer_entry x]"
      by (auto simp: x)
    obtain codes' where rest: "send_all E rs ep1 = (codes', ep')" "codes = 0 # codes'"
      using Cons.prems(1) ep1(1) by (auto simp: x split: prod.splits)
    have "capacity - length (queued ep) = Suc (capacity - length (queued ep1))"
      using True by (simp add: ep1(2))
    then have "min (length (x # rs)) (capacity - length (queued ep)) =
        Suc (min (length rs) (capacity - length (queued ep1)))"
      by simp
    with Cons.IH [OF rest(1) refl] Cons.prems(2) show ?thesis
      by (simp add: rest(2) ep1(2))
  next
    case False
    then have full: "ue_send_defer E b l d c ep = (- FI_EAGAIN E, ep)"
      using tx_queue.send_full [OF assms(1)] by simp
    obtain codes' where rest: "send_all E rs ep = (codes', ep')" "codes = (- FI_EAGAIN E) # codes'"
      using Cons.prems(1) full by (auto simp: x split: prod.splits)
    from Cons.IH [OF rest(1) refl] Cons.prems(2) False show ?thesis
      by (simp add: rest(2))
  qed
qed

theorem deferred_sends_in_order_witness:
  "send_all (list_queue 2) [(1, 2, 3, 4), (5, 6, 7, 8), (9, 10, 11, 12)] [] =
     ([0, 0, - 11], [defer_entry (1, 2, 3, 4), defer_entry (5, 6, 7, 8)])"
proof -
  obtain codes ep' where run: "send_all (list_queue 2) [(1, 2, 3, 4), (5, 6, 7, 8), (9, 10, 11, 12)] [] = (codes, ep')"
    by fastforce
  have code: "FI_EAGAIN (list_queue 2) = 11" by (simp add: list_queue_def)
  from deferred_sends_in_order [OF list_queue.tx_queue_axioms run refl] run code show ?thesis
    by (simp add: numeral_eq_Suc)
qed

end
