(* ===== verification/Inc_Offload.thy ===== *)
theory Inc_Offload
  imports Prelude
begin

text \<open>
  \<open>ue_inc.c\<close>: collective operations offloaded to the switch. The allocator, the control
  packet, the switch and the posting of buffers are not in the repository: they act on an
  opaque world, which is passed through the calls in the order the code makes them.
\<close>

section \<open>Requests\<close>

datatype ue_inc_op = UE_INC_ALLREDUCE | UE_INC_ALLGATHER | UE_INC_REDUCE_SCATTER | UE_INC_BROADCAST

text \<open>Pointers are addresses; the two last members hold the numeric values of enumerations.\<close>

record ue_inc_request =
  inc_operation :: ue_inc_op
  inc_group_id :: "32 word"
  inc_rank :: "32 word"
  inc_root_rank :: "32 word"
  inc_send_buf :: "64 word"
  inc_recv_buf :: "64 word"
  inc_count :: "64 word"
  inc_datatype :: "32 word"
  inc_reduce_op :: "32 word"

record ('w, 'ctx, 'pkt) inc_env =
  ue_alloc_inc_context :: "ue_inc_request \<Rightarrow> 'w \<Rightarrow> 'ctx option \<times> 'w"
  ue_create_inc_control_packet :: "ue_inc_request \<Rightarrow> 'w \<Rightarrow> 'pkt \<times> 'w"
  ue_send_to_switch :: "'pkt \<Rightarrow> 'w \<Rightarrow> 'w"
  ue_post_inc_buffers :: "'ctx \<Rightarrow> ue_inc_request \<Rightarrow> 'w \<Rightarrow> int \<times> 'w"
  INC_ENOMEM :: int

definition ue_inc_allreduce_offload ::
  "('w, 'ctx, 'pkt) inc_env \<Rightarrow> ue_inc_request \<Rightarrow> 'w \<Rightarrow> int \<times> 'w" where
  "ue_inc_allreduce_offload E req w =
     (case ue_alloc_inc_context E req w of
        (None, w1) \<Rightarrow> (- INC_ENOMEM E, w1)
      | (Some inc_ctx, w1) \<Rightarrow>
          (let (control_pkt, w2) = ue_create_inc_control_packet E req w1;
               w3 = ue_send_to_switch E control_pkt w2
           in ue_post_inc_buffers E inc_ctx req w3))"

text \<open>
  The designated initialiser: the group identifier is narrowed to the width of its member,
  and the members it does not name are zero.
\<close>

definition allreduce_request ::
  "64 word \<Rightarrow> 64 word \<Rightarrow> 64 word \<Rightarrow> 32 word \<Rightarrow> 32 word \<Rightarrow> 64 word \<Rightarrow> ue_inc_request" where
  "allreduce_request sendbuf recvbuf count dtype opcode group_id =
     \<lparr>inc_operation = UE_INC_ALLREDUCE, inc_group_id = ucast group_id, inc_rank = 0, inc_root_rank = 0,
      inc_send_buf = sendbuf, inc_recv_buf = recvbuf, inc_count = count, inc_datatype = dtype,
      inc_reduce_op = opcode\<rparr>"

definition fi_inc_allreduce ::
  "('w, 'ctx, 'pkt) inc_env \<Rightarrow> 64 word \<Rightarrow> 64 word \<Rightarrow> 64 word \<Rightarrow> 32 word \<Rightarrow> 32 word \<Rightarrow> 64 word \<Rightarrow> 'w \<Rightarrow> int \<times> 'w" where
  "fi_inc_allreduce E sendbuf recvbuf count dtype opcode group_id w =
     ue_inc_allreduce_offload E (allreduce_request sendbuf recvbuf count dtype opcode group_id) w"

section \<open>The calls of an offload\<close>

datatype ('ctx, 'pkt) inc_call =
    Alloc_context ue_inc_request
  | Create_packet ue_inc_request
  | Send_packet 'pkt
  | Post_buffers 'ctx ue_inc_request

text \<open>The same environment with every call recorded.\<close>

definition logged ::
  "('w, 'ctx, 'pkt) inc_env \<Rightarrow> ('w \<times> ('ctx, 'pkt) inc_call list, 'ctx, 'pkt) inc_env" where
  "logged E =
     \<lparr>ue_alloc_inc_context = (\<lambda>r (w, l). let (c, w') = ue_alloc_inc_context E r w in (c, w', l @ [Alloc_context r])),
      ue_create_inc_control_packet =
        (\<lambda>r (w, l). let (p, w') = ue_create_inc_control_packet E r w in (p, w', l @ [Create_packet r])),
      ue_send_to_switch = (\<lambda>p (w, l). (ue_send_to_switch E p w, l @ [Send_packet p])),
      ue_post_inc_buffers =
        (\<lambda>c r (w, l). let (i, w') = ue_post_inc_buffers E c r w in (i, w', l @ [Post_buffers c r])),
      INC_ENOMEM = INC_ENOMEM E\<rparr>"

text \<open>Whether a list of calls is one that an offload may make, given what the allocation returned.\<close>

fun offload_calls :: "ue_inc_request \<Rightarrow> 'ctx option \<Rightarrow> ('ctx, 'pkt) inc_call list \<Rightarrow> bool" where
  "offload_calls r None calls \<longleftrightarrow> calls = [Alloc_context r]"
| "offload_calls r (Some c) calls \<longleftrightarrow>
     (\<exists>p. calls = [Alloc_context r, Create_packet r, Send_packet p, Post_buffers c r])"

section \<open>Properties\<close>

text \<open>
  An all-reduce request sets up the switch before it posts any buffer, with the
  same request throughout, and touches neither when no context can be allocated: then it
  returns \<open>-ENOMEM\<close>. Recording the calls changes nothing else.
\<close>

theorem inc_offload_order:
  assumes "fi_inc_allreduce E sb rb n dt opc g w = (code, w')"
  shows "\<exists>calls.
    fi_inc_allreduce (logged E) sb rb n dt opc g (w, []) = (code, w', calls) \<and>
    offload_calls (allreduce_request sb rb n dt opc g)
      (fst (ue_alloc_inc_context E (allreduce_request sb rb n dt opc g) w)) calls \<and>
    (fst (ue_alloc_inc_context E (allreduce_request sb rb n dt opc g) w) = None \<longrightarrow> code = - INC_ENOMEM E)"
  using assms
  by (auto simp: fi_inc_allreduce_def ue_inc_allreduce_offload_def logged_def Let_def
      split: prod.splits option.splits)

definition inc_ex_env :: "(nat, nat, nat) inc_env" where
  "inc_ex_env =
     \<lparr>ue_alloc_inc_context = (\<lambda>r w. (if w < 1 then Some w else None, w + 1)),
      ue_create_inc_control_packet = (\<lambda>r w. (unat (inc_group_id r), w)),
      ue_send_to_switch = (\<lambda>p w. w), ue_post_inc_buffers = (\<lambda>c r w. (0, w)), INC_ENOMEM = 12\<rparr>"

theorem inc_offload_order_witness:
  "\<exists>calls. fi_inc_allreduce (logged inc_ex_env) 1 2 3 4 5 6 (1, []) = (- 12, 2, calls) \<and> length calls = 1"
proof -
  have run: "fi_inc_allreduce inc_ex_env 1 2 3 4 5 6 1 = (- 12, 2)"
    by (simp add: fi_inc_allreduce_def ue_inc_allreduce_offload_def inc_ex_env_def)
  have none: "fst (ue_alloc_inc_context inc_ex_env r 1) = None" for r
    by (simp add: inc_ex_env_def)
  from inc_offload_order [OF run] show ?thesis unfolding none offload_calls.simps by auto
qed

text \<open>
  Property C39: the switch sees less than the caller says. Two group identifiers give the same
  request exactly when they agree in their low 32 bits, so groups can be confused; and every
  member of a group sends the same rank, 0, and root rank, 0.
\<close>

theorem inc_request_truncated:
  "(allreduce_request sb rb n dt opc g = allreduce_request sb rb n dt opc g' \<longleftrightarrow>
      take_bit 32 g = take_bit 32 g') \<and>
   inc_rank (allreduce_request sb rb n dt opc g) = 0 \<and>
   inc_root_rank (allreduce_request sb rb n dt opc g) = 0"
proof -
  have "(ucast g :: 32 word) = ucast g' \<longleftrightarrow> take_bit 32 g = take_bit 32 g'"
  proof
    show "take_bit 32 g = take_bit 32 g'" if "(ucast g :: 32 word) = ucast g'"
      using that by (auto simp: bit_eq_iff bit_simps)
    show "(ucast g :: 32 word) = ucast g'" if "take_bit 32 g = take_bit 32 g'"
    proof (rule bit_word_eqI)
      fix k assume "k < LENGTH(32)"
      with arg_cong [OF that, of "\<lambda>x. bit x k"] show "bit (ucast g :: 32 word) k = bit (ucast g' :: 32 word) k"
        by (simp add: bit_simps)
    qed
  qed
  then show ?thesis by (simp add: allreduce_request_def)
qed

end
