(* ===== verification/Sai_Extensions.thy ===== *)
theory Sai_Extensions
  imports Cpp_Strings
begin

text \<open>
  \<open>sai_ue_extensions.h\<close>: the object types, attributes and counters the Ultra Ethernet
  extension adds to the switch abstraction interface, with the numbers C gives the
  enumerators. The functions the header declares have no definition in the repository.
\<close>

section \<open>Enumerations\<close>

datatype sai_object_type_extensions =
  SAI_OBJECT_TYPE_UE_LLR | SAI_OBJECT_TYPE_UE_PRI | SAI_OBJECT_TYPE_UE_TRANSPORT

fun sai_object_type_code :: "sai_object_type_extensions \<Rightarrow> nat" where
  "sai_object_type_code SAI_OBJECT_TYPE_UE_LLR = 0x1000"
| "sai_object_type_code SAI_OBJECT_TYPE_UE_PRI = 0x1001"
| "sai_object_type_code SAI_OBJECT_TYPE_UE_TRANSPORT = 0x1002"

datatype sai_ue_llr_attr =
    SAI_UE_LLR_ATTR_START
  | SAI_UE_LLR_ATTR_ENABLE
  | SAI_UE_LLR_ATTR_MAX_RETRIES
  | SAI_UE_LLR_ATTR_TIMEOUT_MS
  | SAI_UE_LLR_ATTR_WINDOW_SIZE
  | SAI_UE_LLR_ATTR_SELECTIVE_REPEAT
  | SAI_UE_LLR_ATTR_PORT_ID
  | SAI_UE_LLR_ATTR_STATS_ENABLE
  | SAI_UE_LLR_ATTR_END

text \<open>The enumerators in the order of the declaration; each is one more than the one before.\<close>

definition sai_ue_llr_attrs :: "sai_ue_llr_attr list" where
  "sai_ue_llr_attrs =
     [SAI_UE_LLR_ATTR_START, SAI_UE_LLR_ATTR_ENABLE, SAI_UE_LLR_ATTR_MAX_RETRIES,
      SAI_UE_LLR_ATTR_TIMEOUT_MS, SAI_UE_LLR_ATTR_WINDOW_SIZE, SAI_UE_LLR_ATTR_SELECTIVE_REPEAT,
      SAI_UE_LLR_ATTR_PORT_ID, SAI_UE_LLR_ATTR_STATS_ENABLE, SAI_UE_LLR_ATTR_END]"

datatype sai_ue_llr_stat =
    SAI_UE_LLR_STAT_RETRY_COUNT
  | SAI_UE_LLR_STAT_SUCCESS_COUNT
  | SAI_UE_LLR_STAT_TIMEOUT_COUNT
  | SAI_UE_LLR_STAT_LATENCY_IMPROVEMENT_NS

definition sai_ue_llr_stats :: "sai_ue_llr_stat list" where
  "sai_ue_llr_stats =
     [SAI_UE_LLR_STAT_RETRY_COUNT, SAI_UE_LLR_STAT_SUCCESS_COUNT, SAI_UE_LLR_STAT_TIMEOUT_COUNT,
      SAI_UE_LLR_STAT_LATENCY_IMPROVEMENT_NS]"

datatype sai_ue_pri_attr =
    SAI_UE_PRI_ATTR_START
  | SAI_UE_PRI_ATTR_ENABLE
  | SAI_UE_PRI_ATTR_ETHERNET_COMPRESSION
  | SAI_UE_PRI_ATTR_IP_COMPRESSION
  | SAI_UE_PRI_ATTR_COMPRESSION_RATIO
  | SAI_UE_PRI_ATTR_PORT_ID
  | SAI_UE_PRI_ATTR_END

definition sai_ue_pri_attrs :: "sai_ue_pri_attr list" where
  "sai_ue_pri_attrs =
     [SAI_UE_PRI_ATTR_START, SAI_UE_PRI_ATTR_ENABLE, SAI_UE_PRI_ATTR_ETHERNET_COMPRESSION,
      SAI_UE_PRI_ATTR_IP_COMPRESSION, SAI_UE_PRI_ATTR_COMPRESSION_RATIO, SAI_UE_PRI_ATTR_PORT_ID,
      SAI_UE_PRI_ATTR_END]"

section \<open>Numbers\<close>

text \<open>The number of an enumerator is its position in the declaration.\<close>

fun position :: "'a list \<Rightarrow> 'a \<Rightarrow> nat option" where
  "position [] x = None"
| "position (y # ys) x = (if x = y then Some 0 else map_option Suc (position ys x))"

definition enum_code :: "'a list \<Rightarrow> 'a \<Rightarrow> nat" where
  "enum_code es x = the (position es x)"

definition enum_of :: "'a list \<Rightarrow> nat \<Rightarrow> 'a option" where
  "enum_of es n = (if n < length es then Some (es ! n) else None)"

lemma position_Some: "x \<in> set es \<Longrightarrow> \<exists>n < length es. position es x = Some n \<and> es ! n = x"
  by (induction es) auto

lemma enum_of_code: "x \<in> set es \<Longrightarrow> enum_of es (enum_code es x) = Some x"
  using position_Some [of x es] by (auto simp: enum_code_def enum_of_def)

lemma position_nth: "distinct es \<Longrightarrow> n < length es \<Longrightarrow> position es (es ! n) = Some n"
  by (induction es arbitrary: n) (auto simp: nth_Cons split: nat.split)

lemma enum_code_nth: "distinct es \<Longrightarrow> n < length es \<Longrightarrow> enum_code es (es ! n) = n"
  by (simp add: enum_code_def position_nth)

interpretation enumerators: codec "enum_code es" "enum_of es" "\<lambda>x. x \<in> set es" for es
  by unfold_locales (rule enum_of_code)

lemma enumerators_UNIV:
  "set sai_ue_llr_attrs = UNIV" "set sai_ue_llr_stats = UNIV" "set sai_ue_pri_attrs = UNIV"
proof -
  have "a \<in> set sai_ue_llr_attrs" for a by (cases a; simp add: sai_ue_llr_attrs_def)
  moreover have "a \<in> set sai_ue_llr_stats" for a by (cases a; simp add: sai_ue_llr_stats_def)
  moreover have "a \<in> set sai_ue_pri_attrs" for a by (cases a; simp add: sai_ue_pri_attrs_def)
  ultimately show "set sai_ue_llr_attrs = UNIV" "set sai_ue_llr_stats = UNIV" "set sai_ue_pri_attrs = UNIV"
    by auto
qed

definition llr_attr_code :: "sai_ue_llr_attr \<Rightarrow> nat" where
  "llr_attr_code = enum_code sai_ue_llr_attrs"

definition pri_attr_code :: "sai_ue_pri_attr \<Rightarrow> nat" where
  "pri_attr_code = enum_code sai_ue_pri_attrs"

definition llr_stat_code :: "sai_ue_llr_stat \<Rightarrow> nat" where
  "llr_stat_code = enum_code sai_ue_llr_stats"

lemmas sai_code_defs = llr_attr_code_def pri_attr_code_def llr_stat_code_def

lemma sai_codes_inj: "inj llr_attr_code" "inj pri_attr_code" "inj llr_stat_code"
  by (simp_all add: sai_code_defs inj_def enumerators.enc_eq_iff enumerators_UNIV)

lemmas sai_code_eval = sai_code_defs enum_code_def sai_ue_llr_attrs_def sai_ue_llr_stats_def
  sai_ue_pri_attrs_def

section \<open>Properties\<close>

text \<open>
  Within each enumeration the numbers are distinct; the attributes proper are
  exactly the numbers strictly between the two markers, 1 to 7 for LLR and 1 to 5 for PRI;
  the counters are numbered 0 to 3. An LLR attribute and a PRI attribute can share a number:
  only the object type tells them apart.
\<close>

theorem sai_numbers:
  "inj sai_object_type_code \<and> inj llr_attr_code \<and> inj pri_attr_code \<and> inj llr_stat_code \<and>
   llr_attr_code ` (UNIV - {SAI_UE_LLR_ATTR_START, SAI_UE_LLR_ATTR_END}) =
     {llr_attr_code SAI_UE_LLR_ATTR_START<..<llr_attr_code SAI_UE_LLR_ATTR_END} \<and>
   pri_attr_code ` (UNIV - {SAI_UE_PRI_ATTR_START, SAI_UE_PRI_ATTR_END}) =
     {pri_attr_code SAI_UE_PRI_ATTR_START<..<pri_attr_code SAI_UE_PRI_ATTR_END} \<and>
   llr_stat_code ` UNIV = {0..<4} \<and>
   llr_attr_code SAI_UE_LLR_ATTR_MAX_RETRIES = pri_attr_code SAI_UE_PRI_ATTR_ETHERNET_COMPRESSION"
proof (intro conjI)
  have "{SAI_UE_LLR_ATTR_ENABLE, SAI_UE_LLR_ATTR_MAX_RETRIES, SAI_UE_LLR_ATTR_TIMEOUT_MS,
      SAI_UE_LLR_ATTR_WINDOW_SIZE, SAI_UE_LLR_ATTR_SELECTIVE_REPEAT, SAI_UE_LLR_ATTR_PORT_ID,
      SAI_UE_LLR_ATTR_STATS_ENABLE} = UNIV - {SAI_UE_LLR_ATTR_START, SAI_UE_LLR_ATTR_END}"
    by (auto simp flip: enumerators_UNIV simp: sai_ue_llr_attrs_def)
  from this [symmetric] show "llr_attr_code ` (UNIV - {SAI_UE_LLR_ATTR_START, SAI_UE_LLR_ATTR_END}) =
     {llr_attr_code SAI_UE_LLR_ATTR_START<..<llr_attr_code SAI_UE_LLR_ATTR_END}"
    by (simp add: sai_code_eval greaterThanLessThan_upt numeral_eq_Suc)
  have "{SAI_UE_PRI_ATTR_ENABLE, SAI_UE_PRI_ATTR_ETHERNET_COMPRESSION, SAI_UE_PRI_ATTR_IP_COMPRESSION,
      SAI_UE_PRI_ATTR_COMPRESSION_RATIO, SAI_UE_PRI_ATTR_PORT_ID} =
      UNIV - {SAI_UE_PRI_ATTR_START, SAI_UE_PRI_ATTR_END}"
    by (auto simp flip: enumerators_UNIV simp: sai_ue_pri_attrs_def)
  from this [symmetric] show "pri_attr_code ` (UNIV - {SAI_UE_PRI_ATTR_START, SAI_UE_PRI_ATTR_END}) =
     {pri_attr_code SAI_UE_PRI_ATTR_START<..<pri_attr_code SAI_UE_PRI_ATTR_END}"
    by (simp add: sai_code_eval greaterThanLessThan_upt numeral_eq_Suc)
  show "llr_stat_code ` UNIV = {0..<4}"
    unfolding enumerators_UNIV(2) [symmetric]
    by (simp add: sai_code_eval atLeastLessThan_upt numeral_eq_Suc)
  show "inj sai_object_type_code"
  proof (rule injI)
    fix x y show "sai_object_type_code x = sai_object_type_code y \<Longrightarrow> x = y"
      by (cases x; cases y) simp_all
  qed
qed (simp_all add: sai_codes_inj, simp add: sai_code_eval)

end
