(* ===== verification/Spec2Isabelle.thy ===== *)
theory Spec2Isabelle
  imports Llr_Manager Pri_Manager Link_Daemon Fec_Runs Daemon_Runs Flow_Runs Congestion_Spec
    Provider Inc_Offload Sai_Extensions
begin

text \<open>
  A model of the Ultra Ethernet additions to SONiC in this repository, and the theorems that
  say what the code does.

  The program. Two daemons and a transport library. \<open>sonic-ue-linkd\<close> has an event loop that
  turns the \<open>UE_LINK_TABLE\<close> configuration of ports into application and state entries and
  starts a forward-error-correction monitor thread per port (\<open>ue_linkd.cpp\<close>), and two managers
  with the consumer interface of SONiC: link layer retry (\<open>ue_llr_manager.cpp\<close>) and packet rate
  improvement (\<open>ue_pri_manager.cpp\<close>, \<open>ue_pri_manager.h\<close>). \<open>sonic-ue-transportd\<close> has a main loop
  (\<open>ue_transportd.cpp\<close>) over a flow manager (\<open>ue_flow_manager.cpp\<close>) and a congestion manager
  (\<open>ue_congestion_manager.cpp\<close>). The library has the packet headers (\<open>ue_transport.h\<close>), the older
  64-bit-addressed data path (\<open>ue_rdma.c\<close>, \<open>ue_provider.c\<close>), the dual-stack one
  (\<open>ue_transport_v4v6.h\<close>), collective offload (\<open>ue_inc.c\<close>) and the numbers of the SAI extension
  (\<open>sai_ue_extensions.h\<close>).

  The theories.
  \<^item> \<open>Prelude\<close>: outcomes (normal, exception with the state it leaves, undefined behaviour),
    \<open>std::unordered_map\<close> as a list in iteration order behind the interface \<open>keyed_store\<close>, and
    range-based loops, whose iterator becomes invalid when the body changes the keys
    (interface \<open>loop_body\<close>).
  \<^item> \<open>Cpp_Strings\<close>, \<open>Cpp_Double\<close>: \<open>std::to_string\<close>, \<open>std::stoi\<close>, \<open>std::stoull\<close> with their exceptions
    (interface \<open>codec\<close>), and binary64 arithmetic with rounding to nearest even (\<open>rounding\<close>).
  \<^item> \<open>Swss\<close>: tasks and the loop that drains them (\<open>task_handler\<close>, \<open>total_task_handler\<close>), the
    trace of database commands and what it leaves published, periodic jobs (\<open>periodic_job\<close>: not
    too often; \<open>live_job\<close>: never late).
  \<^item> \<open>Llr_Manager\<close>, \<open>Pri_Manager\<close>: one definition per member function, with the state record of the
    class; invariants of the reachable states, what is published, the counters and rates.
  \<^item> \<open>Link_Daemon\<close>: the class \<open>UELinkD\<close>, its loop and \<open>main\<close> with its exit codes; mirror theorems.
  \<^item> \<open>Fec_Monitor\<close>: one iteration of \<open>monitorFEC\<close> and the interleaving of all threads as a step
    relation in which the test of the flag, the read and the write of the table are steps of
    their own, over an abstract table read (\<open>table_reads\<close>).
  \<^item> \<open>Fec_Runs\<close>: exact counts with one monitor per port, progress and shutdown of the monitors.
  \<^item> \<open>Flow_Packet\<close>, \<open>Transport_Types\<close>, \<open>Flow_Manager\<close>: parsing a packet, the flow table, its
    counters, timers, configuration and clean-up.
  \<^item> \<open>Congestion_Manager\<close>: detection, the event queue, path weights, statistics; the congestion
    states are ordered by severity.
  \<^item> \<open>Transport_Daemon\<close>: \<open>main\<close> of the transport daemon over both managers; what \<open>readData\<close> reads
    is an argument of the events, what it does with it a parameter.
  \<^item> \<open>Dual_Stack\<close>: addresses, socket addresses, both connection pools (\<open>conn_pool\<close>,
    \<open>jiffies_clock\<close>), remote writes, multipath setup and endpoints.
  \<^item> \<open>Wire_Headers\<close>: the packed headers and packet structures byte by byte (\<open>packed_field\<close>), on
    hosts of either endianness.
  \<^item> \<open>Traffic\<close>: the path from the bytes of packets to the published statistics, and the life of
    idle flows between packets and periodic calls.
  \<^item> \<open>Daemon_Runs\<close>: the daemon's runs are the runs of its two managers side by side; how it ends;
    and that, unless \<open>readData\<close> does it by itself, the loop never gives the flow manager a packet
    or a configuration task.
  \<^item> \<open>Flow_Spec\<close>, \<open>Congestion_Spec\<close>: the abstract specifications of the two managers, which their
    operations refine. A flow is one entry of a partial map; a detection pass is a simultaneous
    update of all interfaces, and the periodic task composes the specified operations around
    the undefined \<open>updateCongestionState\<close>, of which nothing is assumed.
  \<^item> \<open>Flow_Runs\<close>: whole runs of packets and periodic calls against an abstract account of the flows,
    the published statistics and the timers, with no bound on packets or times.
  \<^item> \<open>Provider\<close>: \<open>ue_provider.c\<close> (\<open>tx_queue\<close>), and how the older pools are served inside the
    dual-stack ones, whatever creating and posting do in either version.
  \<^item> \<open>Inc_Offload\<close>, \<open>Sai_Extensions\<close>: the collective offload and the enumerations of the SAI header.
  \<^item> This theory: the event loop of the link daemon refines the system of monitor threads.

  State and operations. A class is a record of its members; function-local statics are members
  too; a member function is a function from its arguments and the state to the new state, or to
  an outcome where it can fail. What a function writes to a database is appended to a trace kept
  in the state. Clock readings, random numbers and hardware readings are arguments. Integers
  have the width of the code; where a header that would fix a width is missing, the width is a
  type parameter, and the theorems hold for every width unless they say otherwise.

  Bounds. There is no fuel: every loop of the code is structural recursion or has a measure. The
  theorems name the ranges in which numbers do not wrap: round-trip times below \<open>2^29\<close>
  microseconds, \<open>2^45\<close> updates of the LLR rates (\<open>2^53\<close> is where integers stop being exact
  doubles), \<open>2^60\<close> PRI updates, \<open>2^39\<close> codewords for the reading of the alert, ages below \<open>2^63\<close>
  clock ticks. Accounting for traffic end to end takes a million packets (the default capacity of
  the flow table) within one flow timeout (300 seconds), so that no flow is refused or expires in
  between. The other counters are stated modulo their width.

  Parameters. What the repository does not contain stays open: the headers of the managers
  (table names, the numbers of enumerations, default values), \<open>std::hash\<close>, the SONiC framework,
  the kernel clock macros, libfabric, allocation and posting. Members the code calls without
  defining them (\<open>processInterfaceConfig\<close> and \<open>updateCongestionState\<close> of the congestion manager,
  \<open>processInterfaceConfig\<close> and \<open>disableGlobalPRI\<close> of the PRI manager) are fields of the environment.

  Not modelled: \<open>ue_send_v2\<close>, whose body breaks off at the end of its file; the declarations no
  operation uses (the provider structures, the SAI function table and prototypes); logging,
  database connections, the Python and P4 files, packaging. The commented-out SAI calls are not
  code. The end of the detached monitor threads after \<open>main\<close> has deleted the daemon is outside
  the model.
\<close>

section \<open>The link daemon and its monitor threads\<close>

text \<open>
  What the monitor threads see of a state of \<open>UELinkD\<close>: its flag, its table commands, and a
  thread at the top of its loop per monitor started.
\<close>

definition fec_view :: "link_state \<Rightarrow> fec_sys" where
  "fec_view s =
     \<lparr>fs_running = m_running s, fs_threads = map (\<lambda>p. (p, Top)) (ld_monitors s), fs_trace = ld_trace s\<rparr>"

lemma view_table_set:
  assumes "fec_reach get (fec_view s)" and "t \<noteq> ''UE_FEC_STATS_TABLE''"
  shows "fec_reach get (fec_view (table_set d t k f s))"
proof -
  have "fec_step get (fec_view s) ((fec_view s)\<lparr>fs_trace := fs_trace (fec_view s) @ [Tbl_set d t k f]\<rparr>)"
    using assms(2) by (intro fec_step.other_table) simp
  then have "fec_step get (fec_view s) (fec_view (table_set d t k f s))"
    by (simp add: fec_view_def)
  with assms(1) show ?thesis by (rule fec_reach.step)
qed

lemma view_table_del:
  assumes "fec_reach get (fec_view s)" and "t \<noteq> ''UE_FEC_STATS_TABLE''"
  shows "fec_reach get (fec_view (table_del d t k s))"
proof -
  have "fec_step get (fec_view s) ((fec_view s)\<lparr>fs_trace := fs_trace (fec_view s) @ [Tbl_del d t k]\<rparr>)"
    using assms(2) by (intro fec_step.other_table) simp
  then have "fec_step get (fec_view s) (fec_view (table_del d t k s))"
    by (simp add: fec_view_def)
  with assms(1) show ?thesis by (rule fec_reach.step)
qed

lemma view_setup:
  assumes "fec_reach get (fec_view s)"
  shows "fec_reach get (fec_view (setupFECMonitoring p s))"
proof -
  have "fec_step get (fec_view s) ((fec_write p fec_zero_fvs (fec_view s))
      \<lparr>fs_threads := fs_threads (fec_view s) @ [(p, Top)]\<rparr>)"
    by (rule fec_step.configured)
  then have "fec_step get (fec_view s) (fec_view (setupFECMonitoring p s))"
    by (simp add: fec_view_def setupFECMonitoring_def Let_def fec_write_def)
  with assms show ?thesis by (rule fec_reach.step)
qed

lemma view_processLinkConfig:
  assumes "fec_reach get (fec_view s)"
  shows "fec_reach get (fec_view (processLinkConfig p data s))"
  using assms
  by (simp add: processLinkConfig_def Let_def initializeLLR_def initializePRI_def
      triggerLLDPNegotiation_def view_table_set view_setup)

lemma view_handle:
  "fec_reach get (fec_view s) \<Longrightarrow> fec_reach get (fec_view (handle_selected r s))"
  by (simp add: handle_selected_def view_processLinkConfig view_table_del split: selected.split operation.split)

lemma view_stop:
  assumes "fec_reach get (fec_view s)"
  shows "fec_reach get (fec_view (link_stop s))"
proof -
  have "fec_step get (fec_view s) ((fec_view s)\<lparr>fs_running := False\<rparr>)"
    by (rule fec_step.stops)
  then have "fec_step get (fec_view s) (fec_view (link_stop s))"
    by (simp add: fec_view_def link_stop_def)
  with assms show ?thesis by (rule fec_reach.step)
qed

text \<open>
  Property C7: the sequential model of the daemon's event loop refines the concurrent one:
  whatever the loop does over any sequence of requests and signals, the threads it has
  started, the commands it has sent and its flag form a reachable state of the system of
  monitor threads, so that everything proved of the interleavings holds from there.
\<close>

theorem link_refines_monitors: "fec_reach get (fec_view (link_run UELinkD es))"
proof -
  have "fec_reach get (fec_view s) \<Longrightarrow> fec_reach get (fec_view (link_run s es))" for s
  proof (induction es arbitrary: s)
    case Nil
    then show ?case by simp
  next
    case (Cons e es)
    then show ?case by (cases e) (simp_all add: view_stop view_handle)
  qed
  moreover have "fec_view UELinkD = fec_init"
    by (simp add: fec_view_def UELinkD_def fec_init_def)
  ultimately show ?thesis using fec_reach.start by metis
qed

end
